theory Spec2Isabelle
  imports Main "HOL-Library.Sublist"
begin

section \<open>Playbook syntax\<close>

text \<open>
  The orchestrator of the repository is written as Ansible playbooks:
  \<^verbatim>\<open>ansible/rolling-update.yml\<close>, \<^verbatim>\<open>ansible/disaster-recovery.yml\<close> and the initial
  deployment playbook (the file that \<^verbatim>\<open>deploy.sh\<close> runs as \<^verbatim>\<open>deploy.yml\<close>).  A playbook is
  data: each task is a module call with arguments plus task keywords (\<^verbatim>\<open>when\<close>,
  \<^verbatim>\<open>ignore_errors\<close>, \<^verbatim>\<open>register\<close>, \<^verbatim>\<open>retries\<close>, \<^verbatim>\<open>delay\<close>, \<^verbatim>\<open>until\<close>, \<^verbatim>\<open>notify\<close>, ...).
  The rules by which \<^verbatim>\<open>ansible-playbook\<close> runs a play come first; the three playbooks
  follow, transcribed task by task, in file order.
\<close>

type_synonym host = string

text \<open>Values and the Jinja expressions that occur in \<^verbatim>\<open>when:\<close> and \<^verbatim>\<open>until:\<close>.\<close>

datatype val = VStr string | VInt int | VBool bool

datatype expr =
    ELit val
  | EVar string
  | EDefault expr val
  | EEq expr expr
  | ENe expr expr
  | ENot expr
  | EAnd expr expr
  | EDefined string

datatype keyword =
    When expr
  | Ignore_errors
  | Register string
  | Retries nat
  | Delay nat
  | Until expr
  | Notify "string list"
  | Tags "string list"
  | Loop "string list"
  | Delegate_to string
  | Become_user string
  | Changed_when_false

text \<open>
  A task: its name, the module, the module's arguments as written (those that say what
  the call does; owner, group and mode are left out), and the keywords.
\<close>

datatype task =
  Task (tname: string) (tmodule: string) (targs: "(string \<times> string) list")
       (tkeys: "keyword list")

datatype entry = Single task | Block string "keyword list" "task list"

record play =
  pname :: string
  hosts_pattern :: string
  serial :: "nat option"
  pre_tasks :: "entry list"
  tasks :: "entry list"
  post_tasks :: "entry list"
  handlers :: "entry list"

section \<open>Running a play\<close>

subsection \<open>Variables and conditions\<close>

type_synonym env = "string \<rightharpoonup> val"

text \<open>Jinja truth: an empty string, zero and \<^verbatim>\<open>false\<close> are false.\<close>

fun truthy :: "val \<Rightarrow> bool" where
  "truthy (VBool b) = b"
| "truthy (VStr s) = (s \<noteq> [])"
| "truthy (VInt i) = (i \<noteq> 0)"

text \<open>
  Evaluation of an expression; \<open>None\<close> is Ansible's error on an undefined variable
  (which fails the task).  \<^verbatim>\<open>x | default(v)\<close> replaces an undefined value only.
\<close>

fun eval :: "env \<Rightarrow> expr \<Rightarrow> val option" where
  "eval e (ELit v) = Some v"
| "eval e (EVar x) = e x"
| "eval e (EDefault a v) = (case eval e a of None \<Rightarrow> Some v | Some u \<Rightarrow> Some u)"
| "eval e (EEq a b) =
     (case eval e a of None \<Rightarrow> None
      | Some u \<Rightarrow> (case eval e b of None \<Rightarrow> None | Some v \<Rightarrow> Some (VBool (u = v))))"
| "eval e (ENe a b) =
     (case eval e a of None \<Rightarrow> None
      | Some u \<Rightarrow> (case eval e b of None \<Rightarrow> None | Some v \<Rightarrow> Some (VBool (u \<noteq> v))))"
| "eval e (ENot a) =
     (case eval e a of None \<Rightarrow> None | Some u \<Rightarrow> Some (VBool (\<not> truthy u)))"
| "eval e (EAnd a b) =
     (case eval e a of None \<Rightarrow> None
      | Some u \<Rightarrow> if truthy u then eval e b else Some u)"
| "eval e (EDefined x) = Some (VBool (e x \<noteq> None))"

text \<open>All \<^verbatim>\<open>when:\<close> clauses of a task (its block's first) must hold.\<close>

fun when_of :: "keyword list \<Rightarrow> expr list" where
  "when_of [] = []"
| "when_of (When c # ks) = c # when_of ks"
| "when_of (k # ks) = when_of ks"

fun when_holds :: "env \<Rightarrow> expr list \<Rightarrow> bool option" where
  "when_holds e [] = Some True"
| "when_holds e (c # cs) =
     (case eval e c of None \<Rightarrow> None
      | Some v \<Rightarrow> if truthy v then when_holds e cs else Some False)"

fun retries_of :: "keyword list \<Rightarrow> nat option" where
  "retries_of [] = None"
| "retries_of (Retries n # ks) = Some n"
| "retries_of (k # ks) = retries_of ks"

fun delay_of :: "keyword list \<Rightarrow> nat option" where
  "delay_of [] = None"
| "delay_of (Delay n # ks) = Some n"
| "delay_of (k # ks) = delay_of ks"

fun until_of :: "keyword list \<Rightarrow> expr option" where
  "until_of [] = None"
| "until_of (Until c # ks) = Some c"
| "until_of (k # ks) = until_of ks"

fun register_of :: "keyword list \<Rightarrow> string option" where
  "register_of [] = None"
| "register_of (Register x # ks) = Some x"
| "register_of (k # ks) = register_of ks"

fun notify_of :: "keyword list \<Rightarrow> string list" where
  "notify_of [] = []"
| "notify_of (Notify ns # ks) = ns @ notify_of ks"
| "notify_of (k # ks) = notify_of ks"

definition ignore_errors :: "task \<Rightarrow> bool" where
  "ignore_errors t = (Ignore_errors \<in> set (tkeys t))"

subsection \<open>Modules and the managed hosts\<close>

text \<open>
  What a module finds on the managed host is outside the playbook.  It enters as a
  \<open>world\<close>: for every host, task name and attempt number, the reply the module gets
  there: whether the operation failed or changed something, the HTTP status a \<^verbatim>\<open>uri\<close>
  probe received (\<open>-1\<close> when no connection was made), and what \<^verbatim>\<open>stat\<close> saw of the file
  (whether it exists, and its size).  A task with a \<^verbatim>\<open>loop\<close> is one module call here,
  failed when any of its items failed.
\<close>

datatype reply =
  Reply (r_failed: bool) (r_changed: bool) (r_status: int) (r_exists: bool) (r_size: nat)

type_synonym world = "host \<Rightarrow> string \<Rightarrow> nat \<Rightarrow> reply"

text \<open>
  Whether the module call counts as failed: \<^verbatim>\<open>fail\<close> always does, \<^verbatim>\<open>debug\<close> never;
  \<^verbatim>\<open>uri\<close> fails on every status outside its \<^verbatim>\<open>status_code\<close> list, which no task of
  these playbooks sets, so the default \<^verbatim>\<open>[200]\<close> applies.
\<close>

definition module_failed :: "task \<Rightarrow> reply \<Rightarrow> bool" where
  "module_failed t r =
     (if tmodule t = ''fail'' then True
      else if tmodule t = ''debug'' then False
      else if tmodule t = ''uri'' then r_status r \<noteq> 200
      else r_failed r)"

definition module_changed :: "task \<Rightarrow> reply \<Rightarrow> bool" where
  "module_changed t r =
     (r_changed r \<and> tmodule t \<noteq> ''debug'' \<and> tmodule t \<noteq> ''fail''
      \<and> Changed_when_false \<notin> set (tkeys t))"

text \<open>\<^verbatim>\<open>register: x\<close> makes the result readable as \<^verbatim>\<open>x.failed\<close>, \<^verbatim>\<open>x.status\<close>, ...\<close>

definition bind_result :: "task \<Rightarrow> bool \<Rightarrow> reply \<Rightarrow> env \<Rightarrow> env" where
  "bind_result t f r e =
     (case register_of (tkeys t) of
        None \<Rightarrow> e
      | Some x \<Rightarrow>
          (let e1 = e(x @ ''.failed'' \<mapsto> VBool f)
           in if tmodule t = ''uri'' then e1(x @ ''.status'' \<mapsto> VInt (r_status r))
              else if tmodule t = ''stat'' then e1(x @ ''.stat.exists'' \<mapsto> VBool (r_exists r))
              else e1))"

subsection \<open>One task on one host\<close>

datatype event =
    Exec host string nat
  | Sleep host nat
  | Succeeded host string
  | Skipped host string
  | Ignored host string
  | Fatal host string
  | Finished host

text \<open>
  \<open>Exec h n k\<close>: the module of task \<open>n\<close> runs on \<open>h\<close>, attempt \<open>k\<close>.  \<open>Sleep h d\<close>: the
  executor sleeps \<open>d\<close> seconds before the next attempt.  \<open>Succeeded\<close>, \<open>Skipped\<close>,
  \<open>Ignored\<close> (failed, \<^verbatim>\<open>...ignoring\<close>) and \<open>Fatal\<close> are the four results a task can have
  on a host.  \<open>Finished h\<close> marks that \<open>h\<close> has passed the whole play without a
  fatal result.
\<close>

text \<open>
  The number of attempts, as the task executor counts them: one run plus \<^verbatim>\<open>retries\<close>;
  plus three when only \<^verbatim>\<open>until\<close> is given; a single run without either.  The delay
  defaults to five seconds.
\<close>

definition total_attempts :: "task \<Rightarrow> nat" where
  "total_attempts t =
     (case retries_of (tkeys t) of
        Some n \<Rightarrow> 1 + n
      | None \<Rightarrow> (case until_of (tkeys t) of Some c \<Rightarrow> 1 + 3 | None \<Rightarrow> 1))"

definition task_delay :: "task \<Rightarrow> nat" where
  "task_delay t = (case delay_of (tkeys t) of Some d \<Rightarrow> d | None \<Rightarrow> 5)"

text \<open>
  The condition that ends the retry loop: the \<^verbatim>\<open>until\<close> expression, read with the
  registered result of this attempt; without \<^verbatim>\<open>until\<close>, that the attempt did not fail.
\<close>

definition until_holds :: "task \<Rightarrow> env \<Rightarrow> bool \<Rightarrow> reply \<Rightarrow> bool option" where
  "until_holds t e f r =
     (case until_of (tkeys t) of
        None \<Rightarrow> Some (\<not> f)
      | Some c \<Rightarrow> map_option truthy (eval (bind_result t f r e) c))"

text \<open>
  The retry loop.  \<open>k\<close> is the number of this attempt and \<open>n\<close> the number of attempts
  left after it; \<open>looping\<close> says that more than one attempt was configured.  The loop
  stops at the first attempt whose condition holds; between two attempts it sleeps the
  fixed delay; when the attempts run out the result is marked failed.
\<close>

fun attempt_loop ::
  "world \<Rightarrow> host \<Rightarrow> task \<Rightarrow> env \<Rightarrow> bool \<Rightarrow> nat \<Rightarrow> nat \<Rightarrow> event list \<times> bool \<times> reply" where
  "attempt_loop w h t e looping k 0 =
     (let r = w h (tname t) k; f = module_failed t r
      in if looping
         then (case until_holds t e f r of
                 Some True \<Rightarrow> ([Exec h (tname t) k], f, r)
               | _ \<Rightarrow> ([Exec h (tname t) k], True, r))
         else ([Exec h (tname t) k], f, r))"
| "attempt_loop w h t e looping k (Suc n) =
     (let r = w h (tname t) k; f = module_failed t r
      in case until_holds t e f r of
           Some True \<Rightarrow> ([Exec h (tname t) k], f, r)
         | Some False \<Rightarrow>
             (let (evs, f', r') = attempt_loop w h t e looping (Suc k) n
              in (Exec h (tname t) k # Sleep h (task_delay t) # evs, f', r'))
         | None \<Rightarrow> ([Exec h (tname t) k], True, r))"

record hstate =
  alive :: bool
  henv :: env
  notified :: "string list"

text \<open>
  A task on a host: skipped when its \<^verbatim>\<open>when\<close> is false; otherwise run (with retries).
  A failed result is fatal for the host (the host leaves the play) unless the task has
  \<^verbatim>\<open>ignore_errors\<close>; a changed result notifies the task's handlers.
\<close>

definition run_task :: "world \<Rightarrow> host \<Rightarrow> task \<Rightarrow> hstate \<Rightarrow> event list \<times> hstate" where
  "run_task w h t st =
     (case when_holds (henv st) (when_of (tkeys t)) of
        Some False \<Rightarrow> ([Skipped h (tname t)], st)
      | None \<Rightarrow>
          if ignore_errors t then ([Ignored h (tname t)], st)
          else ([Fatal h (tname t)], st\<lparr>alive := False\<rparr>)
      | Some True \<Rightarrow>
          (let tot = total_attempts t;
               (evs, f, r) = attempt_loop w h t (henv st) (1 < tot) 1 (tot - 1);
               e' = bind_result t f r (henv st)
           in if f
              then (if ignore_errors t
                    then (evs @ [Ignored h (tname t)], st\<lparr>henv := e'\<rparr>)
                    else (evs @ [Fatal h (tname t)], st\<lparr>alive := False, henv := e'\<rparr>))
              else (evs @ [Succeeded h (tname t)],
                    st\<lparr>henv := e',
                       notified := (if module_changed t r
                                    then notified st @ notify_of (tkeys t)
                                    else notified st)\<rparr>)))"

subsection \<open>The play: sections, handlers, batches\<close>

text \<open>
  The steps of a play, in the order the executor takes them: fact gathering, the
  \<^verbatim>\<open>pre_tasks\<close>, the \<^verbatim>\<open>tasks\<close>, the \<^verbatim>\<open>post_tasks\<close>, and after each of the three
  sections a flush of the handlers.  A handler runs in a flush only on a host where a
  task has notified it by name.  Keywords of a block apply to each task inside it.
\<close>

datatype step = Do task | Handle string task | Flush

fun inherit :: "keyword list \<Rightarrow> task \<Rightarrow> task" where
  "inherit ks (Task n m a ks') = Task n m a (ks @ ks')"

fun tasks_of :: "entry list \<Rightarrow> task list" where
  "tasks_of [] = []"
| "tasks_of (Single t # es) = t # tasks_of es"
| "tasks_of (Block n ks ts # es) = map (inherit ks) ts @ tasks_of es"

fun handlers_of :: "entry list \<Rightarrow> (string \<times> task) list" where
  "handlers_of [] = []"
| "handlers_of (Single t # es) = (tname t, t) # handlers_of es"
| "handlers_of (Block n ks ts # es) = map (\<lambda>t. (n, inherit ks t)) ts @ handlers_of es"

definition gather_facts :: task where
  "gather_facts = Task ''Gathering Facts'' ''setup'' [] []"

definition flush :: "play \<Rightarrow> step list" where
  "flush p = map (\<lambda>(n, t). Handle n t) (handlers_of (handlers p)) @ [Flush]"

definition play_steps :: "play \<Rightarrow> step list" where
  "play_steps p =
     Do gather_facts # map Do (tasks_of (pre_tasks p)) @ flush p
     @ map Do (tasks_of (tasks p)) @ flush p
     @ map Do (tasks_of (post_tasks p)) @ flush p"

fun run_step :: "world \<Rightarrow> host \<Rightarrow> step \<Rightarrow> hstate \<Rightarrow> event list \<times> hstate" where
  "run_step w h (Do t) st = (if alive st then run_task w h t st else ([], st))"
| "run_step w h (Handle n t) st =
     (if alive st \<and> n \<in> set (notified st) then run_task w h t st else ([], st))"
| "run_step w h Flush st = ([], st\<lparr>notified := []\<rparr>)"

text \<open>
  The linear strategy on one batch of hosts: step by step, and for each step every
  host of the batch that is still in the play.  (Ansible runs the hosts of one step in
  parallel; here they are taken in the order of the list.  The events of one host keep
  their order either way.)
\<close>

fun run_hosts ::
  "world \<Rightarrow> step \<Rightarrow> (host \<times> hstate) list \<Rightarrow> event list \<times> (host \<times> hstate) list" where
  "run_hosts w s [] = ([], [])"
| "run_hosts w s ((h, st) # hs) =
     (let (ev, st') = run_step w h s st; (evs, hs') = run_hosts w s hs
      in (ev @ evs, (h, st') # hs'))"

fun run_batch ::
  "world \<Rightarrow> step list \<Rightarrow> (host \<times> hstate) list \<Rightarrow> event list \<times> (host \<times> hstate) list" where
  "run_batch w [] hs = ([], hs)"
| "run_batch w (s # ss) hs =
     (let (ev, hs') = run_hosts w s hs; (evs, hs'') = run_batch w ss hs'
      in (ev @ evs, hs''))"

text \<open>
  \<^verbatim>\<open>serial: n\<close> cuts the host list into batches of \<open>n\<close>; without it (or with 0) all
  hosts are one batch.  The whole play, post-tasks included, runs on a batch before
  the next batch starts, and the play ends when every host of a batch has failed.
\<close>

function chunk :: "nat \<Rightarrow> 'a list \<Rightarrow> 'a list list" where
  "chunk n xs =
     (if xs = [] then []
      else if n = 0 \<or> length xs \<le> n then [xs]
      else take n xs # chunk n (drop n xs))"
  by pat_completeness auto
termination
  by (relation "measure (\<lambda>(n, xs). length xs)") auto

declare chunk.simps [simp del]

definition batches :: "nat option \<Rightarrow> host list \<Rightarrow> host list list" where
  "batches s hs = (case s of None \<Rightarrow> chunk 0 hs | Some n \<Rightarrow> chunk n hs)"

definition init_state :: "(host \<Rightarrow> env) \<Rightarrow> host \<Rightarrow> host \<times> hstate" where
  "init_state v h = (h, \<lparr>alive = True, henv = v h, notified = []\<rparr>)"

definition survivors :: "(host \<times> hstate) list \<Rightarrow> host list" where
  "survivors hs = map fst (filter (\<lambda>(h, st). alive st) hs)"

fun run_batches :: "world \<Rightarrow> (host \<Rightarrow> env) \<Rightarrow> step list \<Rightarrow> host list list \<Rightarrow> event list" where
  "run_batches w v ss [] = []"
| "run_batches w v ss (b # bs) =
     (let (tr, hs) = run_batch w ss (map (init_state v) b);
          tr' = tr @ map Finished (survivors hs)
      in if survivors hs = [] then tr' else tr' @ run_batches w v ss bs)"

text \<open>
  A run of a play on the hosts its pattern resolves to, \<open>v h\<close> being the inventory
  and extra variables of host \<open>h\<close>.  The play is run whole, as the README invokes it
  (no \<^verbatim>\<open>--tags\<close>, no \<^verbatim>\<open>--skip-tags\<close>).
\<close>

definition run_play :: "world \<Rightarrow> (host \<Rightarrow> env) \<Rightarrow> play \<Rightarrow> host list \<Rightarrow> event list" where
  "run_play w v p hs = run_batches w v (play_steps p) (batches (serial p) hs)"

section \<open>ansible/rolling-update.yml\<close>

text \<open>
  The \<^verbatim>\<open>vars:\<close> block of the play.  \<^verbatim>\<open>health_check_retries\<close> and
  \<^verbatim>\<open>health_check_delay\<close> are written out as numbers where the health check uses them.
\<close>

definition rolling_update_vars :: "(string \<times> string) list" where
  "rolling_update_vars =
     [(''app_name'', ''nodejs-ansible-deploy''), (''app_port'', ''3000''),
      (''app_dir'', ''/opt/nodejs-app''), (''app_user'', ''nodeapp''),
      (''systemd_service_name'', ''nodejs-app''), (''backup_dir'', ''/opt/backups''),
      (''health_check_retries'', ''10''), (''health_check_delay'', ''30'')]"

definition create_backup_before_update :: task where
  "create_backup_before_update =
     Task ''Create backup before update'' ''archive''
       [(''path'', ''{{ app_dir }}''),
        (''dest'', ''{{ backup_dir }}/{{ app_name }}-pre-update-{{ ansible_date_time.epoch }}.tar.gz'')]
       [Tags [''backup'']]"

definition health_check_after_update :: task where
  "health_check_after_update =
     Task ''Health check after update'' ''uri''
       [(''url'', ''http://localhost:{{ app_port }}/health''), (''method'', ''GET''),
        (''return_content'', ''yes'')]
       [Register ''health_check'', Retries 10, Delay 30,
        Until (EEq (EVar ''health_check.status'') (ELit (VInt 200)))]"

definition verify_rollback :: task where
  "verify_rollback =
     Task ''Verify rollback'' ''uri''
       [(''url'', ''http://localhost:{{ app_port }}/health''), (''method'', ''GET'')]
       [Register ''rollback_health'', Retries 5, Delay 10]"

definition clean_up_old_backups :: task where
  "clean_up_old_backups =
     Task ''Clean up old backups'' ''find''
       [(''paths'', ''{{ backup_dir }}''), (''patterns'', ''{{ app_name }}-*.tar.gz''),
        (''age'', ''7d'')]
       [Register ''old_backups'', Tags [''cleanup'']]"

definition remove_old_backups :: task where
  "remove_old_backups =
     Task ''Remove old backups'' ''file''
       [(''path'', ''{{ item.path }}''), (''state'', ''absent'')]
       [Loop [''{{ old_backups.files }}''], Tags [''cleanup'']]"

definition rolling_update :: play where
  "rolling_update = \<lparr>
     pname = ''Rolling Update Deployment'',
     hosts_pattern = ''webservers'',
     serial = Some 1,
     pre_tasks = [
       Single (Task ''Check if this is a rolling update'' ''debug'' [] [])],
     tasks = [
       Single create_backup_before_update,
       Single (Task ''Remove server from load balancer'' ''uri''
         [(''url'', ''http://{{ load_balancer_host | default('localhost') }}/remove/{{ inventory_hostname }}''),
          (''method'', ''POST'')]
         [Ignore_errors, When (EDefined ''load_balancer_host'')]),
       Single (Task ''Wait for connections to drain'' ''wait_for''
         [(''timeout'', ''30'')] [Tags [''drain'']]),
       Single (Task ''Stop application service'' ''systemd''
         [(''name'', ''{{ systemd_service_name }}''), (''state'', ''stopped'')] []),
       Single (Task ''Update application files'' ''copy''
         [(''src'', ''{{ item }}''), (''dest'', ''{{ app_dir }}/{{ item }}'')]
         [Loop [''../package.json'', ''../app.js'', ''../ecosystem.config.js'',
                ''../healthcheck.js''],
          Tags [''update'']]),
       Single (Task ''Update source directory'' ''copy''
         [(''src'', ''../src/''), (''dest'', ''{{ app_dir }}/src/'')] [Tags [''update'']]),
       Single (Task ''Update npm dependencies'' ''npm''
         [(''path'', ''{{ app_dir }}''), (''production'', ''yes''), (''state'', ''latest'')]
         [Become_user ''{{ app_user }}'', Tags [''update'']]),
       Single (Task ''Start application service'' ''systemd''
         [(''name'', ''{{ systemd_service_name }}''), (''state'', ''started''),
          (''daemon_reload'', ''yes'')] []),
       Single (Task ''Wait for application to be ready'' ''wait_for''
         [(''port'', ''{{ app_port }}''), (''host'', ''localhost''), (''timeout'', ''60'')] []),
       Single health_check_after_update,
       Single (Task ''Add server back to load balancer'' ''uri''
         [(''url'', ''http://{{ load_balancer_host | default('localhost') }}/add/{{ inventory_hostname }}''),
          (''method'', ''POST'')]
         [Ignore_errors, When (EDefined ''load_balancer_host'')]),
       Single (Task ''Verify update success'' ''debug'' [] [])],
     post_tasks = [
       Single clean_up_old_backups,
       Single remove_old_backups],
     handlers = [
       Block ''rollback on failure''
         [When (ENe (EVar ''health_check.status'') (ELit (VInt 200)))]
         [Task ''Stop failed service'' ''systemd''
            [(''name'', ''{{ systemd_service_name }}''), (''state'', ''stopped'')] [],
          Task ''Restore from backup'' ''unarchive''
            [(''src'', ''{{ backup_dir }}/{{ app_name }}-pre-update-{{ ansible_date_time.epoch }}.tar.gz''),
             (''dest'', ''/''), (''remote_src'', ''yes'')] [],
          Task ''Start service after rollback'' ''systemd''
            [(''name'', ''{{ systemd_service_name }}''), (''state'', ''started'')] [],
          verify_rollback,
          Task ''Rollback notification'' ''debug'' [] []]]
   \<rparr>"

section \<open>ansible/disaster-recovery.yml\<close>

text \<open>
  The play variable \<^verbatim>\<open>recovery_backup_path\<close> is
  \<^verbatim>\<open>{{ backup_restore_path | default('') }}\<close>; it is written out in the first task's
  condition.  The play has no \<^verbatim>\<open>serial\<close>, no handlers and no pre- or post-tasks.
  The other variables of its \<^verbatim>\<open>vars:\<close> block:
\<close>

definition disaster_recovery_vars :: "(string \<times> string) list" where
  "disaster_recovery_vars =
     [(''app_name'', ''nodejs-ansible-deploy''), (''app_port'', ''3000''),
      (''app_dir'', ''/opt/nodejs-app''), (''app_user'', ''nodeapp''),
      (''systemd_service_name'', ''nodejs-app''), (''backup_dir'', ''/opt/backups'')]"

definition check_if_recovery_backup_is_specified :: task where
  "check_if_recovery_backup_is_specified =
     Task ''Check if recovery backup is specified'' ''fail''
       [(''msg'', ''Please specify backup_restore_path variable with the backup file to restore'')]
       [When (EEq (EDefault (EVar ''backup_restore_path'') (VStr [])) (ELit (VStr [])))]"

definition verify_backup_file_exists :: task where
  "verify_backup_file_exists =
     Task ''Verify backup file exists'' ''stat''
       [(''path'', ''{{ recovery_backup_path }}'')]
       [Register ''backup_file'', Delegate_to ''localhost'']"

definition fail_if_backup_file_doesnt_exist :: task where
  "fail_if_backup_file_doesnt_exist =
     Task ''Fail if backup file doesn't exist'' ''fail''
       [(''msg'', ''Backup file {{ recovery_backup_path }} does not exist'')]
       [When (ENot (EVar ''backup_file.stat.exists''))]"

definition create_current_state_backup :: task where
  "create_current_state_backup =
     Task ''Create current state backup before recovery'' ''archive''
       [(''path'', ''{{ app_dir }}''),
        (''dest'', ''{{ backup_dir }}/{{ app_name }}-pre-recovery-{{ ansible_date_time.epoch }}.tar.gz'')]
       [Ignore_errors]"

definition remove_current_application_directory :: task where
  "remove_current_application_directory =
     Task ''Remove current application directory'' ''file''
       [(''path'', ''{{ app_dir }}''), (''state'', ''absent'')] []"

definition recreate_application_directory :: task where
  "recreate_application_directory =
     Task ''Recreate application directory'' ''file''
       [(''path'', ''{{ app_dir }}''), (''state'', ''directory'')] []"

definition copy_backup_file_to_remote_server :: task where
  "copy_backup_file_to_remote_server =
     Task ''Copy backup file to remote server'' ''copy''
       [(''src'', ''{{ recovery_backup_path }}''), (''dest'', ''/tmp/recovery-backup.tar.gz'')] []"

definition restore_application_from_backup :: task where
  "restore_application_from_backup =
     Task ''Restore application from backup'' ''unarchive''
       [(''src'', ''/tmp/recovery-backup.tar.gz''), (''dest'', ''/''), (''remote_src'', ''yes'')] []"

definition disaster_recovery :: play where
  "disaster_recovery = \<lparr>
     pname = ''Disaster Recovery for Node.js Application'',
     hosts_pattern = ''webservers'',
     serial = None,
     pre_tasks = [],
     tasks = [
       Single check_if_recovery_backup_is_specified,
       Single verify_backup_file_exists,
       Single fail_if_backup_file_doesnt_exist,
       Single (Task ''Stop all services'' ''systemd''
         [(''name'', ''{{ item }}''), (''state'', ''stopped'')]
         [Loop [''{{ systemd_service_name }}'', ''nginx''], Ignore_errors]),
       Single create_current_state_backup,
       Single remove_current_application_directory,
       Single recreate_application_directory,
       Single copy_backup_file_to_remote_server,
       Single restore_application_from_backup,
       Single (Task ''Install/update npm dependencies'' ''npm''
         [(''path'', ''{{ app_dir }}''), (''production'', ''yes''), (''state'', ''present'')]
         [Become_user ''{{ app_user }}'']),
       Single (Task ''Start application service'' ''systemd''
         [(''name'', ''{{ systemd_service_name }}''), (''state'', ''started''),
          (''daemon_reload'', ''yes'')] []),
       Single (Task ''Start nginx service'' ''systemd''
         [(''name'', ''nginx''), (''state'', ''started'')] []),
       Single (Task ''Wait for application to be ready'' ''wait_for''
         [(''port'', ''{{ app_port }}''), (''host'', ''localhost''), (''timeout'', ''60'')] []),
       Single (Task ''Verify recovery success'' ''uri''
         [(''url'', ''http://localhost:{{ app_port }}/health''), (''method'', ''GET''),
          (''return_content'', ''yes'')]
         [Register ''recovery_health_check'', Retries 10, Delay 10]),
       Single (Task ''Clean up temporary backup file'' ''file''
         [(''path'', ''/tmp/recovery-backup.tar.gz''), (''state'', ''absent'')] []),
       Single (Task ''Display recovery results'' ''debug'' [] []),
       Single (Task ''Send recovery notification'' ''mail''
         [(''to'', ''{{ notification_email | default('admin@example.com') }}''),
          (''subject'', ''Disaster Recovery Completed for {{ app_name }}'')]
         [When (EDefined ''notification_email''), Ignore_errors])],
     post_tasks = [],
     handlers = []
   \<rparr>"

section \<open>The initial deployment playbook (deploy.yml)\<close>

text \<open>
  The play \<^verbatim>\<open>Deploy Advanced Node.js Application\<close>; lists of packages and shell
  scripts are shortened.  The play variables \<^verbatim>\<open>ssl_enabled\<close> (\<^verbatim>\<open>{{ enable_ssl | default(false) }}\<close>) and
  \<^verbatim>\<open>domain_name\<close> (\<^verbatim>\<open>{{ app_domain | default('localhost') }}\<close>) are written out in the
  one condition that reads them.
\<close>

text \<open>\<^verbatim>\<open>x | default(false)\<close>\<close>

definition default_false :: "string \<Rightarrow> expr" where
  "default_false x = EDefault (EVar x) (VBool False)"

definition stop_application_if_running :: task where
  "stop_application_if_running =
     Task ''Stop application if running'' ''systemd''
       [(''name'', ''{{ systemd_service_name }}''), (''state'', ''stopped'')]
       [Ignore_errors]"

definition create_backup_of_current_application :: task where
  "create_backup_of_current_application =
     Task ''Create backup of current application'' ''archive''
       [(''path'', ''{{ app_dir }}''),
        (''dest'', ''{{ backup_dir }}/{{ app_name }}-{{ ansible_date_time.epoch }}.tar.gz'')]
       [When (EDefault (EVar ''backup_before_deploy'') (VBool True)), Ignore_errors]"

definition copy_application_files :: task where
  "copy_application_files =
     Task ''Copy application files'' ''copy''
       [(''src'', ''{{ item }}''), (''dest'', ''{{ app_dir }}/{{ item }}'')]
       [Loop [''../package.json'', ''../app.js'', ''../ecosystem.config.js'',
              ''../healthcheck.js''],
        Notify [''restart nodejs app'']]"

definition deploy :: play where
  "deploy = \<lparr>
     pname = ''Deploy Advanced Node.js Application'',
     hosts_pattern = ''webservers'',
     serial = None,
     pre_tasks = [
       Single (Task ''Update system packages'' ''apt''
         [(''update_cache'', ''yes''), (''cache_valid_time'', ''3600''), (''upgrade'', ''dist'')]
         [When (EEq (EVar ''ansible_os_family'') (ELit (VStr ''Debian'')))]),
       Single (Task ''Install basic system packages'' ''apt''
         [(''state'', ''present''), (''update_cache'', ''yes'')] [])],
     tasks = [
       Single (Task ''Configure system limits'' ''lineinfile''
         [(''path'', ''/etc/security/limits.conf''), (''line'', ''{{ item }}''), (''create'', ''yes'')]
         [Loop [''* soft nofile 65535'', ''* hard nofile 65535'',
                ''{{ app_user }} soft nproc 4096'', ''{{ app_user }} hard nproc 4096''],
          Notify [''restart nodejs app'']]),
       Single (Task ''Configure kernel parameters'' ''sysctl''
         [(''name'', ''{{ item.name }}''), (''value'', ''{{ item.value }}''),
          (''state'', ''present''), (''reload'', ''yes'')]
         [Loop [''net.core.somaxconn'', ''net.ipv4.tcp_max_syn_backlog'', ''vm.swappiness'',
                ''fs.file-max'']]),
       Single (Task ''Add NodeSource repository'' ''shell''
         [(''creates'', ''/etc/apt/sources.list.d/nodesource.list'')] []),
       Single (Task ''Install Node.js'' ''apt''
         [(''name'', ''nodejs''), (''state'', ''present''), (''update_cache'', ''yes'')] []),
       Single (Task ''Install PM2 globally'' ''npm''
         [(''name'', ''pm2''), (''global'', ''yes''), (''state'', ''present'')] []),
       Single (Task ''Install global npm packages'' ''npm''
         [(''name'', ''{{ item }}''), (''global'', ''yes''), (''state'', ''present'')]
         [Loop [''npm-check-updates'', ''nodemon'', ''eslint'']]),
       Single (Task ''Add MongoDB repository key'' ''apt_key''
         [(''state'', ''present'')] [When (default_false ''install_mongodb'')]),
       Single (Task ''Add MongoDB repository'' ''apt_repository''
         [(''state'', ''present''), (''update_cache'', ''yes'')]
         [When (default_false ''install_mongodb'')]),
       Single (Task ''Install MongoDB'' ''apt''
         [(''name'', ''mongodb-org''), (''state'', ''present'')]
         [When (default_false ''install_mongodb'')]),
       Single (Task ''Configure MongoDB'' ''template''
         [(''src'', ''mongod.conf.j2''), (''dest'', ''/etc/mongod.conf''), (''backup'', ''yes'')]
         [Notify [''restart mongodb''], When (default_false ''install_mongodb'')]),
       Single (Task ''Start and enable MongoDB'' ''systemd''
         [(''name'', ''mongod''), (''state'', ''started''), (''enabled'', ''yes'')]
         [When (default_false ''install_mongodb'')]),
       Single (Task ''Install Redis'' ''apt''
         [(''name'', ''redis-server''), (''state'', ''present'')]
         [When (default_false ''install_redis'')]),
       Single (Task ''Configure Redis'' ''template''
         [(''src'', ''redis.conf.j2''), (''dest'', ''/etc/redis/redis.conf''), (''backup'', ''yes'')]
         [Notify [''restart redis''], When (default_false ''install_redis'')]),
       Single (Task ''Start and enable Redis'' ''systemd''
         [(''name'', ''redis-server''), (''state'', ''started''), (''enabled'', ''yes'')]
         [When (default_false ''install_redis'')]),
       Single (Task ''Create application group'' ''group''
         [(''name'', ''{{ app_group }}''), (''state'', ''present'')] []),
       Single (Task ''Create application user'' ''user''
         [(''name'', ''{{ app_user }}''), (''group'', ''{{ app_group }}''), (''system'', ''yes''),
          (''home'', ''{{ app_dir }}''), (''create_home'', ''yes'')] []),
       Single (Task ''Create application directories'' ''file''
         [(''path'', ''{{ item }}''), (''state'', ''directory'')]
         [Loop [''{{ app_dir }}'', ''{{ app_dir }}/logs'', ''{{ app_dir }}/uploads'',
                ''{{ app_dir }}/tmp'', ''{{ backup_dir }}'']]),
       Single stop_application_if_running,
       Single create_backup_of_current_application,
       Single copy_application_files,
       Single (Task ''Copy source directory'' ''copy''
         [(''src'', ''../src/''), (''dest'', ''{{ app_dir }}/src/'')]
         [Notify [''restart nodejs app'']]),
       Single (Task ''Copy public directory'' ''copy''
         [(''src'', ''../public/''), (''dest'', ''{{ app_dir }}/public/'')]
         [Notify [''restart nodejs app'']]),
       Single (Task ''Create environment file'' ''template''
         [(''src'', ''.env.j2''), (''dest'', ''{{ app_dir }}/.env'')]
         [Notify [''restart nodejs app'']]),
       Single (Task ''Install npm dependencies'' ''npm''
         [(''path'', ''{{ app_dir }}''), (''production'', ''yes''), (''state'', ''present'')]
         [Become_user ''{{ app_user }}'']),
       Single (Task ''Run application tests'' ''shell''
         [(''cmd'', ''npm test''), (''chdir'', ''{{ app_dir }}'')]
         [Become_user ''{{ app_user }}'', When (default_false ''run_tests''), Ignore_errors]),
       Single (Task ''Setup PM2 startup'' ''shell''
         [(''cmd'', ''pm2 startup systemd; systemctl enable pm2'')]
         [When (default_false ''use_pm2'')]),
       Single (Task ''Start application with PM2'' ''shell''
         [(''cmd'', ''pm2 start; pm2 save'')]
         [Become_user ''{{ app_user }}'', When (default_false ''use_pm2'')]),
       Single (Task ''Create systemd service file'' ''template''
         [(''src'', ''nodejs-app.service.j2''),
          (''dest'', ''/etc/systemd/system/{{ systemd_service_name }}.service'')]
         [Notify [''reload systemd'', ''restart nodejs app''],
          When (ENot (default_false ''use_pm2''))]),
       Single (Task ''Install Nginx'' ''apt''
         [(''name'', ''nginx''), (''state'', ''present'')] []),
       Single (Task ''Remove default Nginx configuration'' ''file''
         [(''path'', ''/etc/nginx/sites-enabled/default''), (''state'', ''absent'')]
         [Notify [''restart nginx'']]),
       Single (Task ''Configure Nginx site'' ''template''
         [(''src'', ''nginx-site.conf.j2''),
          (''dest'', ''/etc/nginx/sites-available/{{ app_name }}'')]
         [Notify [''restart nginx'']]),
       Single (Task ''Enable Nginx site'' ''file''
         [(''src'', ''/etc/nginx/sites-available/{{ app_name }}''),
          (''dest'', ''/etc/nginx/sites-enabled/{{ app_name }}''), (''state'', ''link'')]
         [Notify [''restart nginx'']]),
       Single (Task ''Configure Nginx global settings'' ''template''
         [(''src'', ''nginx.conf.j2''), (''dest'', ''/etc/nginx/nginx.conf''), (''backup'', ''yes'')]
         [Notify [''restart nginx'']]),
       Single (Task ''Test Nginx configuration'' ''command''
         [(''cmd'', ''nginx -t'')] [Register ''nginx_test_result'', Changed_when_false]),
       Single (Task ''Obtain SSL certificate with Certbot'' ''shell''
         [(''cmd'', ''certbot --nginx'')]
         [When (EAnd (default_false ''enable_ssl'')
                  (ENe (EDefault (EVar ''app_domain'') (VStr ''localhost''))
                       (ELit (VStr ''localhost'')))),
          Ignore_errors]),
       Single (Task ''Install UFW'' ''apt''
         [(''name'', ''ufw''), (''state'', ''present'')] []),
       Single (Task ''Configure UFW rules'' ''ufw''
         [(''rule'', ''allow''), (''port'', ''{{ item }}''), (''proto'', ''tcp'')]
         [Loop [''22'', ''80'', ''443'', ''{{ app_port }}'']]),
       Single (Task ''Enable UFW'' ''ufw'' [(''state'', ''enabled'')] []),
       Single (Task ''Install monitoring tools'' ''apt'' [(''state'', ''present'')] []),
       Single (Task ''Create monitoring script'' ''template''
         [(''src'', ''monitor.sh.j2''), (''dest'', ''/usr/local/bin/monitor-app'')] []),
       Single (Task ''Setup log rotation'' ''template''
         [(''src'', ''logrotate.j2''), (''dest'', ''/etc/logrotate.d/{{ app_name }}'')] []),
       Single (Task ''Setup application health check cron job'' ''cron''
         [(''name'', ''Health check for {{ app_name }}''), (''minute'', ''*/5'')] []),
       Single (Task ''Setup backup cron job'' ''cron''
         [(''name'', ''Backup {{ app_name }}''), (''minute'', ''0''), (''hour'', ''2'')] []),
       Single (Task ''Start and enable services'' ''systemd''
         [(''name'', ''{{ item }}''), (''state'', ''started''), (''enabled'', ''yes''),
          (''daemon_reload'', ''yes'')]
         [Loop [''{{ systemd_service_name }}'', ''nginx''],
          When (ENot (default_false ''use_pm2''))]),
       Single (Task ''Enable services (PM2 mode)'' ''systemd''
         [(''name'', ''{{ item }}''), (''state'', ''started''), (''enabled'', ''yes''),
          (''daemon_reload'', ''yes'')]
         [Loop [''pm2-{{ app_user }}'', ''nginx''], When (default_false ''use_pm2'')]),
       Single (Task ''Wait for application to start'' ''wait_for''
         [(''port'', ''{{ app_port }}''), (''host'', ''localhost''), (''timeout'', ''60''),
          (''delay'', ''10'')] []),
       Single (Task ''Test application health endpoint'' ''uri''
         [(''url'', ''http://localhost:{{ app_port }}/health''), (''method'', ''GET''),
          (''return_content'', ''yes''), (''timeout'', ''10'')]
         [Register ''health_check'', Retries 5, Delay 10,
          Until (EEq (EVar ''health_check.status'') (ELit (VInt 200)))]),
       Single (Task ''Test Nginx proxy'' ''uri''
         [(''url'', ''http://localhost/health''), (''method'', ''GET''),
          (''return_content'', ''yes''), (''timeout'', ''10'')]
         [Register ''nginx_health_check'', Retries 3, Delay 5]),
       Single (Task ''Display deployment results'' ''debug'' [] [])],
     post_tasks = [],
     handlers = [
       Single (Task ''reload systemd'' ''systemd'' [(''daemon_reload'', ''yes'')] []),
       Single (Task ''restart nodejs app'' ''systemd''
         [(''name'', ''{{ systemd_service_name }}''), (''state'', ''restarted'')]
         [When (ENot (default_false ''use_pm2''))]),
       Single (Task ''restart pm2 app'' ''shell''
         [(''cmd'', ''pm2 restart; pm2 save'')]
         [Become_user ''{{ app_user }}'', When (default_false ''use_pm2'')]),
       Single (Task ''restart nginx'' ''systemd''
         [(''name'', ''nginx''), (''state'', ''restarted'')] []),
       Single (Task ''restart mongodb'' ''systemd''
         [(''name'', ''mongod''), (''state'', ''restarted'')]
         [When (default_false ''install_mongodb'')]),
       Single (Task ''restart redis'' ''systemd''
         [(''name'', ''redis-server''), (''state'', ''restarted'')]
         [When (default_false ''install_redis'')])]
   \<rparr>"

section \<open>What the file modules do\<close>

subsection \<open>Arguments and templates\<close>

definition arg_of :: "task \<Rightarrow> string \<Rightarrow> string option" where
  "arg_of t k = map_of (targs t) k"

text \<open>
  A template is rendered by replacing every \<^verbatim>\<open>{{ name }}\<close> by the value of the
  variable \<^verbatim>\<open>name\<close>; an undefined variable, or a \<^verbatim>\<open>{{\<close> that is not closed, is an
  error (\<open>None\<close>).  The second argument of \<open>rend\<close> is the name being read, when the
  position is inside a \<^verbatim>\<open>{{ }}\<close>.
\<close>

fun rend :: "(string \<times> string) list \<Rightarrow> string option \<Rightarrow> string \<Rightarrow> string option" where
  "rend vs None [] = Some []"
| "rend vs None (c # cs) =
     (if prefix ''{{ '' (c # cs) then rend vs (Some []) (drop 2 cs)
      else map_option (\<lambda>r. c # r) (rend vs None cs))"
| "rend vs (Some n) [] = None"
| "rend vs (Some n) (c # cs) =
     (if prefix '' }}'' (c # cs) then
        (case map_of vs n of
           None \<Rightarrow> None
         | Some s \<Rightarrow> map_option (\<lambda>r. s @ r) (rend vs None (drop 2 cs)))
      else rend vs (Some (n @ [c])) cs)"

definition render :: "(string \<times> string) list \<Rightarrow> string \<Rightarrow> string option" where
  "render vs s = rend vs None s"

text \<open>The directory and the last component of an absolute path.\<close>

definition dirname :: "string \<Rightarrow> string" where
  "dirname p = rev (tl (dropWhile (\<lambda>c. c \<noteq> CHR ''/'') (rev p)))"

definition basename :: "string \<Rightarrow> string" where
  "basename p = rev (takeWhile (\<lambda>c. c \<noteq> CHR ''/'') (rev p))"

subsection \<open>The backup directory: \<^verbatim>\<open>archive\<close>, \<^verbatim>\<open>find\<close>, and \<^verbatim>\<open>file\<close> with \<^verbatim>\<open>state: absent\<close>\<close>

text \<open>
  The files of a managed host, as \<^verbatim>\<open>find\<close> sees them: path, modification time
  (seconds since the epoch), kind.
\<close>

datatype fkind = Regular | Directory | Symlink

record dirent =
  fpath :: string
  fmtime :: int
  fkind :: fkind

text \<open>Shell pattern matching, for patterns made of literal characters and \<^verbatim>\<open>*\<close>.\<close>

fun glob :: "string \<Rightarrow> string \<Rightarrow> bool" where
  "glob [] s = (s = [])"
| "glob (p # ps) [] = (p = CHR ''*'' \<and> glob ps [])"
| "glob (p # ps) (c # cs) =
     (if p = CHR ''*'' then glob ps (c # cs) \<or> glob (p # ps) cs
      else p = c \<and> glob ps cs)"

text \<open>
  The \<^verbatim>\<open>age\<close> argument of \<^verbatim>\<open>find\<close>: a number of seconds, or a number followed by
  one of \<^verbatim>\<open>s m h d w\<close> (negative ages, which select young files, are not needed here
  and are refused).
\<close>

definition digit :: "char \<Rightarrow> int option" where
  "digit c =
     map_of [(CHR ''0'', 0), (CHR ''1'', 1), (CHR ''2'', 2), (CHR ''3'', 3), (CHR ''4'', 4),
             (CHR ''5'', 5), (CHR ''6'', 6), (CHR ''7'', 7), (CHR ''8'', 8), (CHR ''9'', 9)] c"

fun number :: "int \<Rightarrow> string \<Rightarrow> int option" where
  "number a [] = Some a"
| "number a (c # cs) = (case digit c of None \<Rightarrow> None | Some d \<Rightarrow> number (10 * a + d) cs)"

definition unit_seconds :: "char \<Rightarrow> int option" where
  "unit_seconds c =
     map_of [(CHR ''s'', 1), (CHR ''m'', 60), (CHR ''h'', 3600), (CHR ''d'', 86400),
             (CHR ''w'', 604800)] c"

definition age_seconds :: "string \<Rightarrow> int option" where
  "age_seconds s =
     (if s = [] then None
      else case unit_seconds (last s) of
             None \<Rightarrow> number 0 s
           | Some k \<Rightarrow> if butlast s = [] then None
                       else map_option (\<lambda>n. n * k) (number 0 (butlast s)))"

text \<open>
  \<^verbatim>\<open>find\<close> with \<^verbatim>\<open>paths\<close>, \<^verbatim>\<open>patterns\<close> and \<^verbatim>\<open>age\<close>, and its defaults
  \<^verbatim>\<open>file_type: file\<close>, \<^verbatim>\<open>recurse: no\<close>, \<^verbatim>\<open>age_stamp: mtime\<close>: it returns the regular
  files that lie directly in the directory, whose name matches the pattern, and whose
  modification time lies at least \<^verbatim>\<open>age\<close> before now.
\<close>

definition find_matches :: "(string \<times> string) list \<Rightarrow> task \<Rightarrow> dirent \<Rightarrow> bool" where
  "find_matches vs t f =
     (case (Option.bind (arg_of t ''paths'') (render vs),
            Option.bind (arg_of t ''patterns'') (render vs)) of
        (Some d, Some p) \<Rightarrow>
          dirname (fpath f) = d \<and> fkind f = Regular \<and> glob p (basename (fpath f))
      | _ \<Rightarrow> False)"

definition find_aged :: "task \<Rightarrow> int \<Rightarrow> dirent \<Rightarrow> bool" where
  "find_aged t now f =
     (case arg_of t ''age'' of
        None \<Rightarrow> True
      | Some s \<Rightarrow> (case age_seconds s of None \<Rightarrow> False | Some a \<Rightarrow> a \<le> now - fmtime f))"

text \<open>
  A backup is a file that \<^verbatim>\<open>Clean up old backups\<close> looks at: a regular file of
  \<^verbatim>\<open>backup_dir\<close> named \<^verbatim>\<open>{{ app_name }}-*.tar.gz\<close>.  \<^verbatim>\<open>Clean up old backups\<close>
  registers the backups that have the age, at the time \<open>now\<close> of its run.
\<close>

definition is_backup :: "dirent \<Rightarrow> bool" where
  "is_backup f = find_matches rolling_update_vars clean_up_old_backups f"

definition expired :: "int \<Rightarrow> dirent \<Rightarrow> bool" where
  "expired now f = (is_backup f \<and> find_aged clean_up_old_backups now f)"

definition find_old :: "int \<Rightarrow> dirent list \<Rightarrow> dirent list" where
  "find_old now files = filter (expired now) files"

text \<open>
  \<^verbatim>\<open>Remove old backups\<close>: \<^verbatim>\<open>file\<close> with \<^verbatim>\<open>state: absent\<close>, once for the path of each
  registered file.
\<close>

definition remove_path :: "string \<Rightarrow> dirent list \<Rightarrow> dirent list" where
  "remove_path p files = filter (\<lambda>g. fpath g \<noteq> p) files"

definition remove_old :: "dirent list \<Rightarrow> dirent list \<Rightarrow> dirent list" where
  "remove_old found files =
     (if tmodule remove_old_backups = ''file''
         \<and> arg_of remove_old_backups ''path'' = Some ''{{ item.path }}''
         \<and> arg_of remove_old_backups ''state'' = Some ''absent''
      then fold (\<lambda>f d. remove_path (fpath f) d) found files
      else files)"

definition sweep :: "int \<Rightarrow> dirent list \<Rightarrow> dirent list" where
  "sweep now files = remove_old (find_old now files) files"

text \<open>The newest backup: a backup that no other backup is younger than.\<close>

definition newest :: "dirent list \<Rightarrow> dirent \<Rightarrow> bool" where
  "newest files f =
     (f \<in> set files \<and> is_backup f
      \<and> list_all (\<lambda>g. is_backup g \<longrightarrow> fmtime g \<le> fmtime f) files)"

text \<open>
  \<^verbatim>\<open>Create backup before update\<close>: \<^verbatim>\<open>archive\<close> writes the file \<^verbatim>\<open>dest\<close>, replacing
  what was there; the file's modification time is the time \<open>t\<close> of the writing.  The
  name of the file has the fact \<^verbatim>\<open>ansible_date_time.epoch\<close> in it, \<open>e\<close> here, which was
  gathered when the host's pass of the play began.
\<close>

definition backup_dest :: "string \<Rightarrow> string option" where
  "backup_dest e =
     Option.bind (arg_of create_backup_before_update ''dest'')
       (render ((''ansible_date_time.epoch'', e) # rolling_update_vars))"

definition archive_backup :: "string \<Rightarrow> int \<Rightarrow> dirent list \<Rightarrow> dirent list" where
  "archive_backup e t files =
     (case backup_dest e of
        None \<Rightarrow> files
      | Some p \<Rightarrow> remove_path p files @ [\<lparr>fpath = p, fmtime = t, fkind = Regular\<rparr>])"

subsection \<open>The application directory: \<^verbatim>\<open>file\<close> and \<^verbatim>\<open>unarchive\<close>\<close>

text \<open>
  A file system maps absolute paths to nodes; an archive is the list of its members, each
  with its path relative to the archive's root.  \<^verbatim>\<open>unarchive\<close> writes every member
  below \<^verbatim>\<open>dest\<close> and touches nothing else; \<^verbatim>\<open>file: state=absent\<close> removes a path with all
  that is below it; \<^verbatim>\<open>file: state=directory\<close> creates the directory when it is missing.
\<close>

datatype node = File string | Dir

type_synonym fs = "string \<rightharpoonup> node"

type_synonym archive = "(string \<times> node) list"

definition under :: "string \<Rightarrow> string \<Rightarrow> bool" where
  "under d p = (p = d \<or> prefix (d @ ''/'') p)"

definition file_absent :: "string \<Rightarrow> fs \<Rightarrow> fs" where
  "file_absent d f = (\<lambda>p. if under d p then None else f p)"

definition file_directory :: "string \<Rightarrow> fs \<Rightarrow> fs" where
  "file_directory d f = (case f d of None \<Rightarrow> f(d \<mapsto> Dir) | Some n \<Rightarrow> f)"

definition unarchive :: "string \<Rightarrow> archive \<Rightarrow> fs \<Rightarrow> fs" where
  "unarchive dest ar f = fold (\<lambda>(m, n) g. g(dest @ m \<mapsto> n)) ar f"

text \<open>
  What a task that succeeds does to the file system, by its module and arguments; \<open>ar\<close>
  is the content of the archive that an \<^verbatim>\<open>unarchive\<close> task reads.  Other modules do not
  write to the paths that are looked at here.
\<close>

definition task_effect :: "(string \<times> string) list \<Rightarrow> task \<Rightarrow> archive \<Rightarrow> fs \<Rightarrow> fs" where
  "task_effect vs t ar f =
     (if tmodule t = ''file'' then
        (case (Option.bind (arg_of t ''path'') (render vs), arg_of t ''state'') of
           (Some p, Some s) \<Rightarrow>
             if s = ''absent'' then file_absent p f
             else if s = ''directory'' then file_directory p f
             else f
         | _ \<Rightarrow> f)
      else if tmodule t = ''unarchive'' then
        (case Option.bind (arg_of t ''dest'') (render vs) of
           Some d \<Rightarrow> unarchive d ar f
         | None \<Rightarrow> f)
      else f)"

text \<open>
  Disaster recovery restores with three tasks: \<^verbatim>\<open>Remove current application directory\<close>,
  \<^verbatim>\<open>Recreate application directory\<close>, \<^verbatim>\<open>Restore application from backup\<close> (the copy of
  the archive to \<^verbatim>\<open>/tmp\<close> and the \<^verbatim>\<open>npm\<close> run that follows are not part of this file
  system).  \<open>recovery_wipe\<close> is the state after the first two, in which the third starts.
\<close>

definition recovery_wipe :: "fs \<Rightarrow> fs" where
  "recovery_wipe f =
     task_effect disaster_recovery_vars recreate_application_directory []
       (task_effect disaster_recovery_vars remove_current_application_directory [] f)"

definition recovery_restore :: "archive \<Rightarrow> fs \<Rightarrow> fs" where
  "recovery_restore ar f =
     task_effect disaster_recovery_vars restore_application_from_backup ar (recovery_wipe f)"

section \<open>Reading a run\<close>

fun host_of :: "event \<Rightarrow> host" where
  "host_of (Exec h n k) = h"
| "host_of (Sleep h d) = h"
| "host_of (Succeeded h n) = h"
| "host_of (Skipped h n) = h"
| "host_of (Ignored h n) = h"
| "host_of (Fatal h n) = h"
| "host_of (Finished h) = h"

fun task_of :: "event \<Rightarrow> string option" where
  "task_of (Exec h n k) = Some n"
| "task_of (Sleep h d) = None"
| "task_of (Succeeded h n) = Some n"
| "task_of (Skipped h n) = Some n"
| "task_of (Ignored h n) = Some n"
| "task_of (Fatal h n) = Some n"
| "task_of (Finished h) = None"

fun is_fatal :: "event \<Rightarrow> bool" where
  "is_fatal (Fatal h n) = True"
| "is_fatal e = False"

text \<open>
  The state of a host after the first events of a run: \<open>Pending\<close> while nothing has
  run on it, \<open>Committed\<close> once it has passed the whole play, \<open>Unhealthy\<close> once a task
  was fatal for it, \<open>In_flight\<close> in between.  (The playbooks have no further host
  states.)
\<close>

datatype hstatus = Pending | In_flight | Unhealthy | Committed

definition status :: "event list \<Rightarrow> host \<Rightarrow> hstatus" where
  "status tr h =
     (if Finished h \<in> set tr then Committed
      else if list_ex (\<lambda>e. is_fatal e \<and> host_of e = h) tr then Unhealthy
      else if list_ex (\<lambda>e. host_of e = h) tr then In_flight
      else Pending)"

text \<open>The steps of one host alone, in order.\<close>

fun run_host :: "world \<Rightarrow> host \<Rightarrow> step list \<Rightarrow> hstate \<Rightarrow> event list \<times> hstate" where
  "run_host w h [] st = ([], st)"
| "run_host w h (s # ss) st =
     (let (ev, st') = run_step w h s st; (evs, st'') = run_host w h ss st'
      in (ev @ evs, st''))"

fun step_task :: "step \<Rightarrow> task option" where
  "step_task (Do t) = Some t"
| "step_task (Handle n t) = Some t"
| "step_task Flush = None"

fun do_names :: "step list \<Rightarrow> string list" where
  "do_names [] = []"
| "do_names (Do t # ss) = tname t # do_names ss"
| "do_names (s # ss) = do_names ss"

fun step_names :: "step list \<Rightarrow> string list" where
  "step_names [] = []"
| "step_names (Do t # ss) = tname t # step_names ss"
| "step_names (Handle n t # ss) = tname t # step_names ss"
| "step_names (Flush # ss) = step_names ss"

text \<open>No task of these steps notifies a handler.\<close>

definition quiet :: "step list \<Rightarrow> bool" where
  "quiet ss = list_all (\<lambda>s. case step_task s of None \<Rightarrow> True
                              | Some t \<Rightarrow> notify_of (tkeys t) = []) ss"

text \<open>
  \<open>needs tr N g\<close>: in the run \<open>tr\<close>, whenever something happens on a host for a task
  named in \<open>N\<close>, the event \<open>g h\<close> of that host \<open>h\<close> has happened before.
\<close>

definition needs :: "event list \<Rightarrow> string set \<Rightarrow> (host \<Rightarrow> event) \<Rightarrow> bool" where
  "needs tr N g =
     (\<forall>pre e n. prefix (pre @ [e]) tr \<and> task_of e = Some n \<and> n \<in> N
        \<longrightarrow> g (host_of e) \<in> set pre)"

text \<open>
  The destructive steps: stopping or restarting a service, replacing files (\<^verbatim>\<open>copy\<close>,
  \<^verbatim>\<open>template\<close>, \<^verbatim>\<open>unarchive\<close>, removing a path), installing dependencies (\<^verbatim>\<open>npm\<close>).
\<close>

definition destructive :: "task \<Rightarrow> bool" where
  "destructive t =
     ((tmodule t = ''systemd'' \<and>
        ((''state'', ''stopped'') \<in> set (targs t) \<or> (''state'', ''restarted'') \<in> set (targs t)))
      \<or> tmodule t \<in> set [''copy'', ''template'', ''unarchive'', ''npm'']
      \<or> (tmodule t = ''file'' \<and> (''state'', ''absent'') \<in> set (targs t)))"

definition all_tasks :: "play \<Rightarrow> task list" where
  "all_tasks p =
     tasks_of (pre_tasks p) @ tasks_of (tasks p) @ tasks_of (post_tasks p)
     @ map snd (handlers_of (handlers p))"

definition handler_names :: "play \<Rightarrow> string list" where
  "handler_names p = map (\<lambda>(n, t). tname t) (handlers_of (handlers p))"

definition task_named :: "play \<Rightarrow> string \<Rightarrow> task option" where
  "task_named p n = find (\<lambda>t. tname t = n) (all_tasks p)"

text \<open>What the task of that name in a play does to the file system, when it succeeds.\<close>

definition effect_named ::
  "(string \<times> string) list \<Rightarrow> play \<Rightarrow> string \<Rightarrow> archive \<Rightarrow> fs \<Rightarrow> fs" where
  "effect_named vs p n ar f =
     (case task_named p n of None \<Rightarrow> f | Some t \<Rightarrow> task_effect vs t ar f)"

definition destructive_names :: "play \<Rightarrow> string list" where
  "destructive_names p = map tname (filter destructive (all_tasks p))"

text \<open>
  \<open>attempts h n d k m\<close>: attempt \<open>k\<close> of task \<open>n\<close> on \<open>h\<close>, followed by \<open>m\<close> further
  attempts, each after a sleep of \<open>d\<close> seconds.
\<close>

fun attempts :: "host \<Rightarrow> string \<Rightarrow> nat \<Rightarrow> nat \<Rightarrow> nat \<Rightarrow> event list" where
  "attempts h n d k 0 = [Exec h n k]"
| "attempts h n d k (Suc m) = Exec h n k # Sleep h d # attempts h n d (Suc k) m"

subsection \<open>Sample runs\<close>

definition fine :: reply where
  "fine = Reply False True 200 True 4096"

definition no_vars :: "host \<Rightarrow> env" where
  "no_vars h = Map.empty"

definition debian :: "host \<Rightarrow> env" where
  "debian h = [''ansible_os_family'' \<mapsto> VStr ''Debian'']"

text \<open>Every module call succeeds, but the health endpoint of \<open>web2\<close> answers 503.\<close>

definition web2_unhealthy :: world where
  "web2_unhealthy h n k =
     (if h = ''web2'' \<and> n = ''Health check after update''
      then Reply False False 503 False 0 else fine)"

text \<open>Scenario B: three hosts, the second one unhealthy after its update.\<close>

definition scenario_b :: "event list" where
  "scenario_b = run_play web2_unhealthy no_vars rolling_update [''web1'', ''web2'', ''web3'']"

text \<open>Every module call succeeds.\<close>

definition all_fine :: world where
  "all_fine h n k = fine"

text \<open>Scenario A on two hosts: both updates pass.\<close>

definition scenario_a :: "event list" where
  "scenario_a = run_play all_fine no_vars rolling_update [''web1'', ''web2'']"

text \<open>Every module call succeeds, but the health endpoint answers 204 (No Content).\<close>

definition answers_204 :: world where
  "answers_204 h n k =
     (if n = ''Health check after update'' then Reply False False 204 False 0 else fine)"

text \<open>Every module call succeeds, but the archive task of the deployment fails.\<close>

definition backup_fails :: world where
  "backup_fails h n k =
     (if n = ''Create backup of current application''
      then Reply True False 0 False 0 else fine)"

definition deploy_sample :: "event list" where
  "deploy_sample = run_play backup_fails debian deploy [''web1'']"

text \<open>
  The supplied backup exists but is an empty file: \<^verbatim>\<open>stat\<close> finds it with size 0, and
  \<^verbatim>\<open>unarchive\<close> cannot read it.
\<close>

definition empty_backup :: world where
  "empty_backup h n k =
     (if n = ''Verify backup file exists'' then Reply False False 0 True 0
      else if n = ''Restore application from backup'' then Reply True False 0 False 0
      else fine)"

definition with_backup_path :: "host \<Rightarrow> env" where
  "with_backup_path h = [''backup_restore_path'' \<mapsto> VStr ''/backups/empty.tar.gz'']"

definition recovery_empty :: "event list" where
  "recovery_empty = run_play empty_backup with_backup_path disaster_recovery [''web1'']"

text \<open>The supplied path does not exist on the control node.\<close>

definition backup_missing :: world where
  "backup_missing h n k =
     (if n = ''Verify backup file exists'' then Reply False False 0 False 0 else fine)"

definition recovery_missing :: "event list" where
  "recovery_missing =
     run_play backup_missing with_backup_path disaster_recovery [''web1'', ''web2'']"

text \<open>The safety snapshot of disaster recovery fails; everything else succeeds.\<close>

definition snapshot_fails :: world where
  "snapshot_fails h n k =
     (if n = ''Create current state backup before recovery''
      then Reply True False 0 False 0 else fine)"

definition recovery_no_snapshot :: "event list" where
  "recovery_no_snapshot =
     run_play snapshot_fails with_backup_path disaster_recovery [''web1'']"

definition start_state :: hstate where
  "start_state = \<lparr>alive = True, henv = Map.empty, notified = []\<rparr>"

text \<open>
  The backup directory of a host whose two backups are 8 and 10 days old at the time
  1700864000, beside a file that is no backup.
\<close>

definition old_dir :: "dirent list" where
  "old_dir =
     [\<lparr>fpath = ''/opt/backups/nodejs-ansible-deploy-pre-update-1700000000.tar.gz'',
       fmtime = 1700000000, fkind = Regular\<rparr>,
      \<lparr>fpath = ''/opt/backups/nodejs-ansible-deploy-pre-update-1700172800.tar.gz'',
       fmtime = 1700172800, fkind = Regular\<rparr>,
      \<lparr>fpath = ''/opt/backups/notes.txt'', fmtime = 1600000000, fkind = Regular\<rparr>]"

text \<open>
  An application directory that holds a file which the backup does not have, and a
  backup as the cron job of the deployment writes it (\<^verbatim>\<open>tar -czf ... {{ app_dir }}\<close>:
  the members are named by their path from the root, without the leading slash).
\<close>

definition after_update :: fs where
  "after_update =
     [''/opt/nodejs-app'' \<mapsto> Dir,
      ''/opt/nodejs-app/app.js'' \<mapsto> File ''v2'',
      ''/opt/nodejs-app/src/new.js'' \<mapsto> File ''v2'',
      ''/etc/hostname'' \<mapsto> File ''web1'']"

definition nightly_backup :: archive where
  "nightly_backup =
     [(''opt/nodejs-app'', Dir), (''opt/nodejs-app/app.js'', File ''v1'')]"

section \<open>Facts about the executor\<close>

subsection \<open>One task, one step, one host\<close>

lemma attempt_loop_events:
  "attempt_loop w h t env l k n = (evs, f, r) \<Longrightarrow> e \<in> set evs \<Longrightarrow>
     (\<exists>j. e = Exec h (tname t) j) \<or> e = Sleep h (task_delay t)"
proof (induction n arbitrary: k evs f r)
  case 0
  then show ?case
    by (auto simp: Let_def split: option.splits bool.splits if_splits)
next
  case (Suc n)
  show ?case
  proof (cases "until_holds t env (module_failed t (w h (tname t) k)) (w h (tname t) k)")
    case None
    with Suc.prems show ?thesis by (auto simp: Let_def)
  next
    case (Some b)
    show ?thesis
    proof (cases b)
      case True
      with Some Suc.prems show ?thesis by (auto simp: Let_def)
    next
      case False
      obtain evs' f' r' where rec: "attempt_loop w h t env l (Suc k) n = (evs', f', r')"
        by (cases "attempt_loop w h t env l (Suc k) n") auto
      with Some False Suc.prems
      have "evs = Exec h (tname t) k # Sleep h (task_delay t) # evs'"
        by (auto simp: Let_def)
      with Suc.prems(2) Suc.IH [OF rec] show ?thesis by auto
    qed
  qed
qed

lemma run_task_cases:
  assumes "run_task w h t st = (evs, st')"
  obtains as f r where
    "attempt_loop w h t (henv st) (1 < total_attempts t) 1 (total_attempts t - 1) = (as, f, r)"
    "evs = [Skipped h (tname t)] \<and> st' = st
     \<or> evs = [Ignored h (tname t)] \<and> st' = st
     \<or> evs = [Fatal h (tname t)] \<and> st' = st\<lparr>alive := False\<rparr> \<and> \<not> ignore_errors t
     \<or> evs = as @ [Ignored h (tname t)] \<and> st' = st\<lparr>henv := bind_result t f r (henv st)\<rparr>
     \<or> evs = as @ [Fatal h (tname t)] \<and> \<not> ignore_errors t
         \<and> st' = st\<lparr>alive := False, henv := bind_result t f r (henv st)\<rparr>
     \<or> evs = as @ [Succeeded h (tname t)]
         \<and> st' = st\<lparr>henv := bind_result t f r (henv st),
                    notified := (if module_changed t r then notified st @ notify_of (tkeys t)
                                 else notified st)\<rparr>"
proof -
  obtain as f r where al:
    "attempt_loop w h t (henv st) (1 < total_attempts t) 1 (total_attempts t - 1) = (as, f, r)"
    by (cases "attempt_loop w h t (henv st) (1 < total_attempts t) 1 (total_attempts t - 1)") auto
  show thesis
    by (rule that [OF al]) (use assms al in
      \<open>auto simp: run_task_def Let_def split: option.splits bool.splits if_splits\<close>)
qed

lemma run_task_events:
  assumes "run_task w h t st = (evs, st')" "e \<in> set evs"
  shows "host_of e = h \<and> (task_of e = None \<or> task_of e = Some (tname t))"
proof -
  obtain as f r where
    al: "attempt_loop w h t (henv st) (1 < total_attempts t) 1 (total_attempts t - 1) = (as, f, r)"
    by (cases "attempt_loop w h t (henv st) (1 < total_attempts t) 1 (total_attempts t - 1)") auto
  from assms al have "e \<in> set as \<or> e \<in> {Skipped h (tname t), Ignored h (tname t),
      Fatal h (tname t), Succeeded h (tname t)}"
    by (auto simp: run_task_def Let_def split: option.splits bool.splits if_splits)
  then show ?thesis
    using attempt_loop_events [OF al, of e] by auto
qed

lemma run_task_alive:
  assumes "run_task w h t st = (evs, st')" "alive st"
  shows "alive st' = (Fatal h (tname t) \<notin> set evs)"
proof -
  from assms(1) obtain as f r where
    al: "attempt_loop w h t (henv st) (1 < total_attempts t) 1 (total_attempts t - 1) = (as, f, r)"
    and c: "evs = [Skipped h (tname t)] \<and> st' = st
     \<or> evs = [Ignored h (tname t)] \<and> st' = st
     \<or> evs = [Fatal h (tname t)] \<and> st' = st\<lparr>alive := False\<rparr> \<and> \<not> ignore_errors t
     \<or> evs = as @ [Ignored h (tname t)] \<and> st' = st\<lparr>henv := bind_result t f r (henv st)\<rparr>
     \<or> evs = as @ [Fatal h (tname t)] \<and> \<not> ignore_errors t
         \<and> st' = st\<lparr>alive := False, henv := bind_result t f r (henv st)\<rparr>
     \<or> evs = as @ [Succeeded h (tname t)]
         \<and> st' = st\<lparr>henv := bind_result t f r (henv st),
                    notified := (if module_changed t r then notified st @ notify_of (tkeys t)
                                 else notified st)\<rparr>"
    by (rule run_task_cases)
  have "Fatal h (tname t) \<notin> set as"
    using attempt_loop_events [OF al] by auto
  with c assms(2) show ?thesis by auto
qed

text \<open>A task without \<^verbatim>\<open>when\<close> and without \<^verbatim>\<open>ignore_errors\<close> lets the host go on only
  when it has succeeded.\<close>

lemma run_task_gate:
  assumes "run_task w h t st = (evs, st')" "alive st'"
    "when_of (tkeys t) = []" "\<not> ignore_errors t"
  shows "Succeeded h (tname t) \<in> set evs"
  using assms
  by (auto simp: run_task_def Let_def split: option.splits bool.splits if_splits prod.splits)

lemma run_task_quiet:
  assumes "run_task w h t st = (evs, st')" "notify_of (tkeys t) = []"
  shows "notified st' = notified st"
  using assms(1)
  by (rule run_task_cases) (use assms(2) in auto)

lemma run_step_events:
  "run_step w h s st = (evs, st') \<Longrightarrow> e \<in> set evs \<Longrightarrow>
     host_of e = h \<and>
     (task_of e = None \<or> (\<exists>t. step_task s = Some t \<and> task_of e = Some (tname t)))"
  by (cases s) (auto split: if_splits dest: run_task_events)

lemma run_step_dead:
  "\<not> alive st \<Longrightarrow> fst (run_step w h s st) = [] \<and> \<not> alive (snd (run_step w h s st))"
  by (cases s) auto

lemma run_host_dead:
  "\<not> alive st \<Longrightarrow> fst (run_host w h ss st) = [] \<and> \<not> alive (snd (run_host w h ss st))"
proof (induction ss arbitrary: st)
  case Nil
  then show ?case by simp
next
  case (Cons s ss)
  from run_step_dead [OF Cons.prems, of w h s]
  show ?case
    using Cons.IH [of "snd (run_step w h s st)"]
    by (simp add: split_beta)
qed

lemma run_host_append:
  "run_host w h (xs @ ys) st =
     (fst (run_host w h xs st) @ fst (run_host w h ys (snd (run_host w h xs st))),
      snd (run_host w h ys (snd (run_host w h xs st))))"
  by (induction xs arbitrary: st) (auto simp: split_beta)

lemma run_host_events:
  "e \<in> set (fst (run_host w h ss st)) \<Longrightarrow>
     host_of e = h \<and>
     (task_of e = None \<or>
      (\<exists>s t. s \<in> set ss \<and> step_task s = Some t \<and> task_of e = Some (tname t)))"
proof (induction ss arbitrary: st)
  case Nil
  then show ?case by simp
next
  case (Cons s ss)
  obtain ev st' where rs: "run_step w h s st = (ev, st')"
    by (cases "run_step w h s st") auto
  from Cons.prems rs have "e \<in> set ev \<or> e \<in> set (fst (run_host w h ss st'))"
    by (auto simp: split_beta)
  then show ?case
  proof
    assume "e \<in> set ev"
    from run_step_events [OF rs this] show ?thesis by auto
  next
    assume "e \<in> set (fst (run_host w h ss st'))"
    from Cons.IH [OF this] show ?thesis by auto
  qed
qed

text \<open>Where no task notifies, no handler ever runs: every event belongs to a task proper.\<close>

lemma run_host_quiet:
  "quiet ss \<Longrightarrow> notified st = [] \<Longrightarrow>
     notified (snd (run_host w h ss st)) = [] \<and>
     (\<forall>e \<in> set (fst (run_host w h ss st)). \<forall>n. task_of e = Some n \<longrightarrow> n \<in> set (do_names ss))"
proof (induction ss arbitrary: st)
  case Nil
  then show ?case by simp
next
  case (Cons s ss)
  obtain ev st' where rs: "run_step w h s st = (ev, st')"
    by (cases "run_step w h s st") auto
  from Cons.prems have q: "quiet ss"
    by (simp add: quiet_def)
  have st': "notified st' = []"
    and ev: "\<forall>e \<in> set ev. \<forall>n. task_of e = Some n \<longrightarrow> n \<in> set (do_names (s # ss))"
  proof -
    show "notified st' = []"
    proof (cases s)
      case (Do t)
      with Cons.prems have "notify_of (tkeys t) = []" by (simp add: quiet_def)
      with rs Do Cons.prems(2) show ?thesis
        by (auto split: if_splits dest: run_task_quiet)
    next
      case (Handle n t)
      with rs Cons.prems(2) show ?thesis by auto
    next
      case Flush
      with rs show ?thesis by auto
    qed
    show "\<forall>e \<in> set ev. \<forall>n. task_of e = Some n \<longrightarrow> n \<in> set (do_names (s # ss))"
    proof (cases s)
      case (Do t)
      with rs show ?thesis
        by (auto split: if_splits dest: run_task_events)
    next
      case (Handle n t)
      with rs Cons.prems(2) show ?thesis by auto
    next
      case Flush
      with rs show ?thesis by auto
    qed
  qed
  from Cons.IH [OF q st', of] rs ev show ?case
    by (cases s) (auto simp: split_beta)
qed

subsection \<open>What must have happened before\<close>

lemma prefix_snoc_append:
  assumes "prefix (pre @ [e]) (a @ b)"
  shows "prefix (pre @ [e]) a \<or> (\<exists>pre'. pre = a @ pre' \<and> prefix (pre' @ [e]) b)"
proof -
  from assms consider "prefix (pre @ [e]) a"
    | us where "pre @ [e] = a @ us" "prefix us b"
    by (auto simp: prefix_append)
  then show ?thesis
  proof cases
    case 1
    then show ?thesis ..
  next
    case 2
    show ?thesis
    proof (cases us rule: rev_cases)
      case Nil
      with 2 show ?thesis by simp
    next
      case (snoc vs x)
      with 2 have "pre = a @ vs" "x = e" by auto
      with 2 snoc show ?thesis by auto
    qed
  qed
qed

lemma needs_silent:
  "\<forall>e \<in> set tr. task_of e = None \<Longrightarrow> needs tr N g"
  unfolding needs_def
proof (intro allI impI)
  fix pre e n
  assume a: "\<forall>e \<in> set tr. task_of e = None"
    and b: "prefix (pre @ [e]) tr \<and> task_of e = Some n \<and> n \<in> N"
  from b have "e \<in> set tr"
    using set_mono_prefix [of "pre @ [e]" tr] by auto
  with a b show "g (host_of e) \<in> set pre" by auto
qed

lemma needs_append:
  assumes "needs a N g" "needs b N g"
  shows "needs (a @ b) N g"
  unfolding needs_def
proof (intro allI impI)
  fix pre e n
  assume h: "prefix (pre @ [e]) (a @ b) \<and> task_of e = Some n \<and> n \<in> N"
  from prefix_snoc_append [of pre e a b] h
  consider "prefix (pre @ [e]) a" | pre' where "pre = a @ pre'" "prefix (pre' @ [e]) b"
    by auto
  then show "g (host_of e) \<in> set pre"
  proof cases
    case 1
    with assms(1) h show ?thesis unfolding needs_def by blast
  next
    case 2
    with assms(2) h have "g (host_of e) \<in> set pre'" unfolding needs_def by blast
    with 2 show ?thesis by simp
  qed
qed

lemma needs_filter:
  assumes "\<And>h. needs (filter (\<lambda>e. host_of e = h) tr) N g"
  shows "needs tr N g"
  unfolding needs_def
proof (intro allI impI)
  fix pre e n
  assume h: "prefix (pre @ [e]) tr \<and> task_of e = Some n \<and> n \<in> N"
  then obtain rest where tr: "tr = pre @ [e] @ rest"
    by (auto simp: prefix_def)
  let ?P = "\<lambda>x. host_of x = host_of e"
  have "prefix (filter ?P pre @ [e]) (filter ?P tr)"
    by (simp add: tr)
  with assms [of "host_of e"] h have "g (host_of e) \<in> set (filter ?P pre)"
    unfolding needs_def by blast
  then show "g (host_of e) \<in> set pre" by simp
qed

lemma needs_nth:
  assumes "needs tr N g" "i < length tr" "task_of (tr ! i) = Some n" "n \<in> N"
  shows "g (host_of (tr ! i)) \<in> set (take i tr)"
proof -
  have "prefix (take i tr @ [tr ! i]) tr"
    using assms(2) take_is_prefix [of "Suc i" tr]
    by (simp add: take_Suc_conv_app_nth)
  with assms show ?thesis unfolding needs_def by blast
qed

lemma quiet_take: "quiet ss \<Longrightarrow> quiet (take k ss)"
  unfolding quiet_def list_all_iff by (auto dest: in_set_takeD)

text \<open>
  On one host: a task without \<^verbatim>\<open>when\<close> and without \<^verbatim>\<open>ignore_errors\<close> has succeeded
  before anything of a later task happens.
\<close>

lemma needs_run_host:
  assumes i: "i < length ss" "ss ! i = Do t"
    and t: "when_of (tkeys t) = []" "\<not> ignore_errors t"
    and q: "quiet ss" "notified st = []"
    and N: "N \<inter> set (do_names (take (Suc i) ss)) = {}"
  shows "needs (fst (run_host w h ss st)) N (\<lambda>h. Succeeded h (tname t))"
  unfolding needs_def
proof (intro allI impI)
  fix pre e n
  assume h: "prefix (pre @ [e]) (fst (run_host w h ss st)) \<and> task_of e = Some n \<and> n \<in> N"
  let ?xs = "take i ss" and ?ys = "drop (Suc i) ss"
  let ?hd = "take (Suc i) ss"
  have ss: "ss = ?hd @ ?ys" by simp
  have hd: "?hd = ?xs @ [Do t]"
    using i by (simp add: take_Suc_conv_app_nth)
  let ?a = "fst (run_host w h ?hd st)"
  let ?st2 = "snd (run_host w h ?hd st)"
  let ?b = "fst (run_host w h ?ys ?st2)"
  have tr: "fst (run_host w h ss st) = ?a @ ?b"
    using run_host_append [of w h ?hd ?ys st] ss by simp
  have "e \<notin> set ?a"
  proof
    assume "e \<in> set ?a"
    moreover have "quiet ?hd" by (rule quiet_take [OF q(1)])
    ultimately have "n \<in> set (do_names ?hd)"
      using run_host_quiet [OF _ q(2), of ?hd w h] h by blast
    with N h show False by auto
  qed
  with prefix_snoc_append [of pre e ?a ?b] h tr
  obtain pre' where pre: "pre = ?a @ pre'" "prefix (pre' @ [e]) ?b"
    using set_mono_prefix [of "pre @ [e]" ?a] by auto
  then have "?b \<noteq> []" by auto
  with run_host_dead [of ?st2 w h ?ys] have alive2: "alive ?st2" by auto
  let ?st1 = "snd (run_host w h ?xs st)"
  have split: "run_host w h ?hd st =
      (fst (run_host w h ?xs st) @ fst (run_step w h (Do t) ?st1), snd (run_step w h (Do t) ?st1))"
    using run_host_append [of w h ?xs "[Do t]" st] hd by (simp add: split_beta)
  with alive2 have a2: "alive (snd (run_step w h (Do t) ?st1))" by simp
  have "alive ?st1"
  proof (rule ccontr)
    assume "\<not> alive ?st1"
    from run_step_dead [OF this, of w h "Do t"] a2 show False by blast
  qed
  then have rt: "run_step w h (Do t) ?st1 = run_task w h t ?st1" by simp
  obtain evs st' where r: "run_task w h t ?st1 = (evs, st')"
    by (cases "run_task w h t ?st1") auto
  with a2 rt have "alive st'" by simp
  from run_task_gate [OF r this t] have "Succeeded h (tname t) \<in> set evs" .
  with split rt r have "Succeeded h (tname t) \<in> set ?a" by simp
  moreover have "host_of e = h"
    using h run_host_events [of e w h ss st] set_mono_prefix [of "pre @ [e]" "fst (run_host w h ss st)"]
    by auto
  ultimately show "Succeeded (host_of e) (tname t) \<in> set pre"
    using pre by simp
qed

subsection \<open>A batch is its hosts, interleaved\<close>

lemma run_hosts_snd:
  "snd (run_hosts w s hs) = map (\<lambda>(h, st). (h, snd (run_step w h s st))) hs"
  by (induction hs) (auto simp: split_beta)

lemma run_batch_snd:
  "snd (run_batch w ss hs) = map (\<lambda>(h, st). (h, snd (run_host w h ss st))) hs"
proof (induction ss arbitrary: hs)
  case Nil
  then show ?case by (simp add: split_beta)
next
  case (Cons s ss)
  show ?case
    by (simp add: split_beta Cons.IH run_hosts_snd o_def)
qed

lemma run_hosts_set:
  "set (fst (run_hosts w s hs)) = (\<Union>(h, st) \<in> set hs. set (fst (run_step w h s st)))"
  by (induction hs) (auto simp: split_beta)

lemma run_batch_set:
  "set (fst (run_batch w ss hs)) = (\<Union>(h, st) \<in> set hs. set (fst (run_host w h ss st)))"
proof (induction ss arbitrary: hs)
  case Nil
  then show ?case by simp
next
  case (Cons s ss)
  show ?case
    by (auto simp: split_beta Cons.IH run_hosts_set run_hosts_snd)
qed

lemma run_hosts_filter:
  "distinct (map fst hs) \<Longrightarrow>
     filter (\<lambda>e. host_of e = h) (fst (run_hosts w s hs)) =
     (case map_of hs h of None \<Rightarrow> [] | Some st \<Rightarrow> fst (run_step w h s st))"
proof (induction hs)
  case Nil
  then show ?case by simp
next
  case (Cons x hs)
  obtain h' st' where x: "x = (h', st')" by (cases x)
  have own: "\<And>e. e \<in> set (fst (run_step w h' s st')) \<Longrightarrow> host_of e = h'"
    using run_step_events [of w h' s st'] by (metis prod.collapse)
  show ?case
  proof (cases "h' = h")
    case True
    with Cons.prems x have "map_of hs h = None"
      by (auto simp: map_of_eq_None_iff)
    with Cons True x own show ?thesis
      by (auto simp: split_beta)
  next
    case False
    with own have "filter (\<lambda>e. host_of e = h) (fst (run_step w h' s st')) = []"
      by (auto simp: filter_empty_conv)
    with Cons False x show ?thesis
      by (auto simp: split_beta)
  qed
qed

lemma map_of_states:
  "map_of (map (\<lambda>(h, st). (h, f h st)) hs) h = map_option (f h) (map_of hs h)"
  by (induction hs) auto

lemma run_batch_filter:
  "distinct (map fst hs) \<Longrightarrow>
     filter (\<lambda>e. host_of e = h) (fst (run_batch w ss hs)) =
     (case map_of hs h of None \<Rightarrow> [] | Some st \<Rightarrow> fst (run_host w h ss st))"
proof (induction ss arbitrary: hs)
  case Nil
  then show ?case by (simp split: option.splits)
next
  case (Cons s ss)
  let ?hs' = "snd (run_hosts w s hs)"
  have d: "distinct (map fst ?hs')"
    using Cons.prems by (simp add: run_hosts_snd o_def split_beta)
  have m: "map_of ?hs' h = map_option (\<lambda>st. snd (run_step w h s st)) (map_of hs h)"
    by (simp add: run_hosts_snd map_of_states)
  show ?case
    using Cons.IH [OF d] run_hosts_filter [OF Cons.prems, of h w s] m
    by (auto simp: split_beta split: option.splits)
qed

lemma needs_run_batch:
  assumes "distinct (map fst hs)"
    and "\<And>h st. (h, st) \<in> set hs \<Longrightarrow> needs (fst (run_host w h ss st)) N g"
  shows "needs (fst (run_batch w ss hs)) N g"
proof (rule needs_filter)
  fix h
  show "needs (filter (\<lambda>e. host_of e = h) (fst (run_batch w ss hs))) N g"
  proof (cases "map_of hs h")
    case None
    then show ?thesis
      using run_batch_filter [OF assms(1), of h w ss] by (simp add: needs_silent)
  next
    case (Some st)
    then have "(h, st) \<in> set hs" by (rule map_of_SomeD)
    with assms(2) Some show ?thesis
      using run_batch_filter [OF assms(1), of h w ss] by simp
  qed
qed

lemma needs_run_batches:
  assumes "\<And>b. b \<in> set bs \<Longrightarrow> distinct b"
    and "\<And>h. needs (fst (run_host w h ss (snd (init_state v h)))) N g"
  shows "needs (run_batches w v ss bs) N g"
  using assms(1)
proof (induction bs)
  case Nil
  then show ?case by (simp add: needs_silent)
next
  case (Cons b bs)
  let ?hs = "map (init_state v) b"
  have d: "distinct (map fst ?hs)"
    using Cons.prems [of b] by (simp add: o_def init_state_def)
  have one: "needs (fst (run_batch w ss ?hs)) N g"
  proof (rule needs_run_batch [OF d])
    fix h st
    assume "(h, st) \<in> set ?hs"
    then have "st = snd (init_state v h)" by (auto simp: init_state_def)
    with assms(2) show "needs (fst (run_host w h ss st)) N g" by simp
  qed
  have fin: "needs (map Finished (survivors (snd (run_batch w ss ?hs)))) N g"
    by (rule needs_silent) auto
  have rest: "needs (run_batches w v ss bs) N g"
    using Cons by simp
  show ?case
    using one fin rest
    by (auto simp: split_beta Let_def intro!: needs_append)
qed

lemma chunk_distinct:
  "distinct xs \<Longrightarrow> b \<in> set (chunk n xs) \<Longrightarrow> distinct b"
proof (induction n xs rule: chunk.induct)
  case (1 n xs)
  show ?case
  proof (cases "xs = [] \<or> n = 0 \<or> length xs \<le> n")
    case True
    with "1.prems" show ?thesis
      by (auto simp: chunk.simps [of n xs] split: if_splits)
  next
    case False
    with "1.prems" have "b = take n xs \<or> b \<in> set (chunk n (drop n xs))"
      by (auto simp: chunk.simps [of n xs])
    with "1.IH" "1.prems" False show ?thesis
      by (auto simp: distinct_take distinct_drop)
  qed
qed

lemma needs_run_play:
  assumes "distinct hs"
    and "\<And>h. needs (fst (run_host w h (play_steps p) (snd (init_state v h)))) N g"
  shows "needs (run_play w v p hs) N g"
  unfolding run_play_def
  by (rule needs_run_batches)
     (use assms in \<open>auto simp: batches_def split: option.splits dest: chunk_distinct\<close>)

subsection \<open>Batches of one host\<close>

lemma run_batch_single:
  "run_batch w ss [(h, st)] = (fst (run_host w h ss st), [(h, snd (run_host w h ss st))])"
  by (induction ss arbitrary: st) (auto simp: split_beta)

lemma chunk_one: "chunk (Suc 0) hs = map (\<lambda>h. [h]) hs"
proof (induction hs)
  case Nil
  then show ?case by (simp add: chunk.simps)
next
  case (Cons h hs)
  have "chunk (Suc 0) (h # hs) =
      (if hs = [] then [[h]] else [h] # chunk (Suc 0) hs)"
    by (subst chunk.simps) simp
  with Cons show ?case by simp
qed

lemma run_batches_single:
  "run_batches w v ss ([h] # bs) =
     (if alive (snd (run_host w h ss (snd (init_state v h))))
      then fst (run_host w h ss (snd (init_state v h))) @ Finished h # run_batches w v ss bs
      else fst (run_host w h ss (snd (init_state v h))))"
  by (simp add: run_batch_single init_state_def survivors_def)

subsection \<open>How far a host gets\<close>

lemma attempt_loop_first:
  "\<exists>evs. fst (attempt_loop w h t e l k n) = Exec h (tname t) k # evs"
  by (cases n) (auto simp: Let_def split_beta split: option.splits bool.splits)

lemma run_task_starts:
  assumes "when_of (tkeys t) = []"
  shows "Exec h (tname t) 1 \<in> set (fst (run_task w h t st))"
proof -
  obtain evs where "fst (attempt_loop w h t (henv st) (1 < total_attempts t) 1
      (total_attempts t - 1)) = Exec h (tname t) 1 # evs"
    using attempt_loop_first by blast
  with assms show ?thesis
    by (auto simp: run_task_def Let_def split_beta)
qed

lemma run_task_ignore:
  assumes "ignore_errors t"
  shows "alive (snd (run_task w h t st)) = alive st"
  using assms
  by (auto simp: run_task_def Let_def split_beta split: option.splits bool.splits)

text \<open>A task that runs once, without condition, and does not fail.\<close>

lemma run_task_plain:
  assumes "when_of (tkeys t) = []" "total_attempts t = 1"
    "ignore_errors t \<or> \<not> module_failed t (w h (tname t) 1)"
  shows "alive (snd (run_task w h t st)) = alive st"
  using assms
  by (auto simp: run_task_def Let_def split_beta split: option.splits bool.splits)

lemma run_host_snoc:
  "run_host w h (ss @ [s]) st =
     (fst (run_host w h ss st) @ fst (run_step w h s (snd (run_host w h ss st))),
      snd (run_step w h s (snd (run_host w h ss st))))"
  by (simp add: run_host_append split_beta)

lemma run_host_take_Suc:
  assumes "i < length ss"
  shows "run_host w h (take (Suc i) ss) st =
     (fst (run_host w h (take i ss) st)
        @ fst (run_step w h (ss ! i) (snd (run_host w h (take i ss) st))),
      snd (run_step w h (ss ! i) (snd (run_host w h (take i ss) st))))"
  using assms by (simp add: take_Suc_conv_app_nth run_host_snoc)

lemma run_host_split:
  "fst (run_host w h ss st) =
     fst (run_host w h (take i ss) st)
     @ fst (run_host w h (drop i ss) (snd (run_host w h (take i ss) st)))"
  using run_host_append [of w h "take i ss" "drop i ss" st] by simp

lemma step_names_events:
  assumes "e \<in> set (fst (run_host w h ss st))" "task_of e = Some n"
  shows "n \<in> set (step_names ss)"
proof -
  from run_host_events [OF assms(1)] assms(2)
  obtain s t where "s \<in> set ss" "step_task s = Some t" "n = tname t" by auto
  then show ?thesis
    by (induction ss rule: step_names.induct) auto
qed

text \<open>
  When anything of the task at position \<open>i\<close> shows in a host's run, and no other step
  bears that task's name, the host was still in the play when it came to that step.
\<close>

lemma alive_before:
  assumes "i < length ss" "ss ! i = Do t"
    and "tname t \<notin> set (step_names (take i ss))"
    and "e \<in> set (fst (run_host w h ss st))" "task_of e = Some (tname t)"
  shows "alive (snd (run_host w h (take i ss) st))"
proof (rule ccontr)
  assume dead: "\<not> alive (snd (run_host w h (take i ss) st))"
  have "fst (run_host w h ss st) = fst (run_host w h (take i ss) st)"
    using run_host_split [of w h ss st i] run_host_dead [OF dead, of w h "drop i ss"]
    by simp
  with assms(4,5) step_names_events [of e w h "take i ss" st "tname t"] assms(3)
  show False by auto
qed

lemma passes:
  assumes "alive (snd (run_host w h (take i ss) st))" "i \<le> m" "m \<le> length ss"
    and "\<And>j. i \<le> j \<Longrightarrow> j < m \<Longrightarrow>
      \<exists>t. ss ! j = Do t \<and>
        (ignore_errors t \<or>
         when_of (tkeys t) = [] \<and> total_attempts t = 1
           \<and> \<not> module_failed t (w h (tname t) 1))"
  shows "alive (snd (run_host w h (take m ss) st))"
  using assms(2,3,4)
proof (induction m)
  case 0
  with assms(1) show ?case by simp
next
  case (Suc m)
  show ?case
  proof (cases "i = Suc m")
    case True
    with assms(1) show ?thesis by simp
  next
    case False
    with Suc.prems have im: "i \<le> m" "m < length ss" by auto
    have a: "alive (snd (run_host w h (take m ss) st))"
      by (rule Suc.IH) (use Suc.prems im in auto)
    from Suc.prems(3) [of m] im obtain t where t: "ss ! m = Do t"
      "ignore_errors t \<or>
         when_of (tkeys t) = [] \<and> total_attempts t = 1
           \<and> \<not> module_failed t (w h (tname t) 1)"
      by auto
    let ?st = "snd (run_host w h (take m ss) st)"
    from t(2) have "alive (snd (run_task w h t ?st)) = alive ?st"
    proof
      assume "ignore_errors t"
      then show ?thesis by (rule run_task_ignore)
    next
      assume "when_of (tkeys t) = [] \<and> total_attempts t = 1
           \<and> \<not> module_failed t (w h (tname t) 1)"
      then show ?thesis
        using run_task_plain [where t = t and w = w and h = h and st = ?st] by simp
    qed
    with a t(1) show ?thesis
      by (simp add: run_host_take_Suc [OF im(2)])
  qed
qed

lemma runs_next:
  assumes "alive (snd (run_host w h (take m ss) st))" "m < length ss"
    "ss ! m = Do u" "when_of (tkeys u) = []"
  shows "Exec h (tname u) 1 \<in> set (fst (run_host w h ss st))"
proof -
  have "Exec h (tname u) 1 \<in> set (fst (run_host w h (take (Suc m) ss) st))"
    using assms run_task_starts [OF assms(4), of h w "snd (run_host w h (take m ss) st)"]
    by (simp add: run_host_take_Suc)
  then show ?thesis
    using run_host_split [of w h ss st "Suc m"] by simp
qed

lemma run_task_fatal:
  assumes "run_task w h t st = (ev, st')"
  shows "list_ex is_fatal ev = (Fatal h (tname t) \<in> set ev)"
proof
  assume "list_ex is_fatal ev"
  then obtain e where e: "e \<in> set ev" "is_fatal e"
    unfolding list_ex_iff by blast
  from run_task_events [OF assms e(1)] e(2) have "e = Fatal h (tname t)"
    by (cases e) simp_all
  with e(1) show "Fatal h (tname t) \<in> set ev" by simp
next
  assume "Fatal h (tname t) \<in> set ev"
  moreover have "is_fatal (Fatal h (tname t))" by simp
  ultimately show "list_ex is_fatal ev"
    unfolding list_ex_iff by blast
qed

lemma run_step_fatal:
  assumes "run_step w h s st = (ev, st')" "alive st"
  shows "alive st' = (\<not> list_ex is_fatal ev)"
proof (cases s)
  case (Do t)
  with assms have rt: "run_task w h t st = (ev, st')" by simp
  from run_task_alive [OF rt assms(2)] run_task_fatal [OF rt] show ?thesis by simp
next
  case (Handle n t)
  show ?thesis
  proof (cases "n \<in> set (notified st)")
    case True
    with Handle assms have rt: "run_task w h t st = (ev, st')" by simp
    from run_task_alive [OF rt assms(2)] run_task_fatal [OF rt] show ?thesis by simp
  next
    case False
    with Handle assms show ?thesis by auto
  qed
next
  case Flush
  with assms show ?thesis by auto
qed

text \<open>
  On one host: a task without \<^verbatim>\<open>when\<close> has been started before anything of a later task
  happens.
\<close>

lemma needs_started:
  assumes i: "i < length ss" "ss ! i = Do t"
    and t: "when_of (tkeys t) = []"
    and N: "N \<inter> set (step_names (take (Suc i) ss)) = {}"
  shows "needs (fst (run_host w h ss st)) N (\<lambda>h. Exec h (tname t) 1)"
  unfolding needs_def
proof (intro allI impI)
  fix pre e n
  assume h: "prefix (pre @ [e]) (fst (run_host w h ss st)) \<and> task_of e = Some n \<and> n \<in> N"
  let ?hd = "take (Suc i) ss" and ?ys = "drop (Suc i) ss"
  let ?a = "fst (run_host w h ?hd st)"
  let ?st2 = "snd (run_host w h ?hd st)"
  let ?b = "fst (run_host w h ?ys ?st2)"
  have tr: "fst (run_host w h ss st) = ?a @ ?b"
    by (rule run_host_split)
  have "e \<notin> set ?a"
  proof
    assume "e \<in> set ?a"
    with step_names_events [of e w h ?hd st n] h have "n \<in> set (step_names ?hd)" by simp
    with N h show False by auto
  qed
  with prefix_snoc_append [of pre e ?a ?b] h tr
  obtain pre' where pre: "pre = ?a @ pre'" "prefix (pre' @ [e]) ?b"
    using set_mono_prefix [of "pre @ [e]" ?a] by auto
  then have "?b \<noteq> []" by auto
  with run_host_dead [of ?st2 w h ?ys] have alive2: "alive ?st2" by auto
  let ?st1 = "snd (run_host w h (take i ss) st)"
  have "alive ?st1"
  proof (rule ccontr)
    assume "\<not> alive ?st1"
    from run_step_dead [OF this, of w h "ss ! i"] alive2 i(1) show False
      by (simp add: run_host_take_Suc)
  qed
  with i t run_task_starts [OF t, of h w ?st1] have "Exec h (tname t) 1 \<in> set ?a"
    by (simp add: run_host_take_Suc)
  moreover have "host_of e = h"
    using h run_host_events [of e w h ss st] set_mono_prefix [of "pre @ [e]" "fst (run_host w h ss st)"]
    by auto
  ultimately show "Exec (host_of e) (tname t) 1 \<in> set pre"
    using pre by simp
qed

lemma run_host_fatal:
  "alive st \<Longrightarrow>
     alive (snd (run_host w h ss st)) = (\<not> list_ex is_fatal (fst (run_host w h ss st)))"
proof (induction ss arbitrary: st)
  case Nil
  then show ?case by simp
next
  case (Cons s ss)
  obtain ev st' where rs: "run_step w h s st = (ev, st')"
    by (cases "run_step w h s st") auto
  note one = run_step_fatal [OF rs Cons.prems]
  show ?case
  proof (cases "alive st'")
    case True
    with Cons.IH [OF True] one rs show ?thesis
      by (simp add: split_beta)
  next
    case False
    with run_host_dead [OF False, of w h ss] one rs show ?thesis
      by (simp add: split_beta)
  qed
qed

subsection \<open>The events of a whole play\<close>

lemma run_task_no_finish: "Finished x \<notin> set (fst (run_task w h t st))"
proof -
  obtain as f r where
    al: "attempt_loop w h t (henv st) (1 < total_attempts t) 1 (total_attempts t - 1) = (as, f, r)"
    by (cases "attempt_loop w h t (henv st) (1 < total_attempts t) 1 (total_attempts t - 1)") auto
  have "Finished x \<notin> set as"
    using attempt_loop_events [OF al, of "Finished x"] by auto
  with al show ?thesis
    by (auto simp: run_task_def Let_def split: option.splits bool.splits if_splits)
qed

lemma run_host_no_finish: "Finished x \<notin> set (fst (run_host w h ss st))"
proof (induction ss arbitrary: st)
  case Nil
  then show ?case by simp
next
  case (Cons s ss)
  have "Finished x \<notin> set (fst (run_step w h s st))"
    using run_task_no_finish by (cases s) auto
  with Cons show ?case
    by (simp add: split_beta)
qed

lemma chunk_concat: "concat (chunk n xs) = xs"
proof (induction n xs rule: chunk.induct)
  case (1 n xs)
  show ?case
  proof (cases "xs = [] \<or> n = 0 \<or> length xs \<le> n")
    case True
    then show ?thesis
      by (auto simp: chunk.simps [of n xs])
  next
    case False
    with "1.IH" show ?thesis
      by (simp add: chunk.simps [of n xs])
  qed
qed

lemma run_batches_events:
  assumes "e \<in> set (run_batches w v ss bs)" "task_of e = Some n"
  shows "host_of e \<in> set (concat bs)
    \<and> e \<in> set (fst (run_host w (host_of e) ss (snd (init_state v (host_of e)))))"
  using assms(1)
proof (induction bs)
  case Nil
  then show ?case by simp
next
  case (Cons b bs)
  let ?r = "run_batch w ss (map (init_state v) b)"
  from Cons.prems assms(2)
  have "e \<in> set (fst ?r) \<or> e \<in> set (run_batches w v ss bs)"
    by (auto simp: split_beta Let_def split: if_splits)
  then show ?case
  proof
    assume "e \<in> set (fst ?r)"
    then obtain h where h: "h \<in> set b"
      "e \<in> set (fst (run_host w h ss (snd (init_state v h))))"
      by (auto simp: run_batch_set init_state_def)
    with run_host_events [OF h(2)] show ?thesis by auto
  next
    assume "e \<in> set (run_batches w v ss bs)"
    with Cons.IH show ?thesis by auto
  qed
qed

lemma run_play_events:
  assumes "e \<in> set (run_play w v p hs)" "task_of e = Some n"
  shows "host_of e \<in> set hs
    \<and> e \<in> set (fst (run_host w (host_of e) (play_steps p) (snd (init_state v (host_of e)))))"
proof -
  have "concat (batches (serial p) hs) = hs"
    by (simp add: batches_def chunk_concat split: option.splits)
  with run_batches_events [of e w v "play_steps p" "batches (serial p) hs" n] assms
  show ?thesis
    unfolding run_play_def by simp
qed

lemma run_batches_finished:
  assumes "Finished h \<in> set (run_batches w v ss bs)"
  shows "alive (snd (run_host w h ss (snd (init_state v h))))"
  using assms
proof (induction bs)
  case Nil
  then show ?case by simp
next
  case (Cons b bs)
  let ?r = "run_batch w ss (map (init_state v) b)"
  have no: "Finished h \<notin> set (fst ?r)"
  proof
    assume "Finished h \<in> set (fst ?r)"
    then obtain h' where "Finished h \<in> set (fst (run_host w h' ss (snd (init_state v h'))))"
      by (auto simp: run_batch_set init_state_def)
    with run_host_no_finish show False by blast
  qed
  from Cons.prems no
  have "h \<in> set (survivors (snd ?r)) \<or> Finished h \<in> set (run_batches w v ss bs)"
    by (auto simp: split_beta Let_def split: if_splits)
  then show ?case
  proof
    assume "h \<in> set (survivors (snd ?r))"
    then show ?thesis
      by (auto simp: survivors_def run_batch_snd init_state_def)
  next
    assume "Finished h \<in> set (run_batches w v ss bs)"
    with Cons.IH show ?thesis by simp
  qed
qed

lemma run_play_finished:
  "Finished h \<in> set (run_play w v p hs) \<Longrightarrow>
     alive (snd (run_host w h (play_steps p) (snd (init_state v h))))"
  unfolding run_play_def by (rule run_batches_finished)

text \<open>Without \<^verbatim>\<open>serial\<close> every host of the list takes part.\<close>

lemma chunk_zero: "chunk 0 xs = (if xs = [] then [] else [xs])"
  by (subst chunk.simps) simp

lemma one_batch_events:
  assumes "serial p = None" "h \<in> set hs"
  shows "set (fst (run_host w h (play_steps p) (snd (init_state v h))))
    \<subseteq> set (run_play w v p hs)"
proof -
  let ?ss = "play_steps p"
  let ?r = "run_batch w ?ss (map (init_state v) hs)"
  from assms(2) have "chunk 0 hs = [hs]"
    by (auto simp: chunk_zero)
  with assms(1) have "run_play w v p hs = run_batches w v ?ss [hs]"
    by (simp add: run_play_def batches_def)
  then have "set (fst ?r) \<subseteq> set (run_play w v p hs)"
    by (simp add: split_beta Let_def)
  moreover have "(h, snd (init_state v h)) \<in> set (map (init_state v) hs)"
    using assms(2) by (simp add: init_state_def image_iff)
  then have "set (fst (run_host w h ?ss (snd (init_state v h)))) \<subseteq> set (fst ?r)"
    unfolding run_batch_set by blast
  ultimately show ?thesis by blast
qed

section \<open>The health gate\<close>

lemma health_check_until:
  "until_holds health_check_after_update e f r = Some (r_status r = 200)"
  by (simp add: until_holds_def bind_result_def health_check_after_update_def)

lemma health_check_failed:
  "module_failed health_check_after_update r = (r_status r \<noteq> 200)"
  by (simp add: module_failed_def health_check_after_update_def)

lemma health_check_params:
  "tname health_check_after_update = ''Health check after update''"
  "task_delay health_check_after_update = 30"
  "total_attempts health_check_after_update = 11"
  "when_of (tkeys health_check_after_update) = []"
  "\<not> ignore_errors health_check_after_update"
  by (simp_all add: health_check_after_update_def task_delay_def total_attempts_def
      ignore_errors_def)

lemma gate_exhausted:
  "(\<And>j. k \<le> j \<Longrightarrow> j \<le> k + n \<Longrightarrow>
      r_status (w h ''Health check after update'' j) \<noteq> 200) \<Longrightarrow>
   attempt_loop w h health_check_after_update e True k n =
     (attempts h ''Health check after update'' 30 k n, True,
      w h ''Health check after update'' (k + n))"
proof (induction n arbitrary: k)
  case 0
  then show ?case
    by (simp add: health_check_until health_check_failed health_check_params)
next
  case (Suc n)
  have "r_status (w h ''Health check after update'' k) \<noteq> 200"
    using Suc.prems [of k] by simp
  moreover have "attempt_loop w h health_check_after_update e True (Suc k) n =
     (attempts h ''Health check after update'' 30 (Suc k) n, True,
      w h ''Health check after update'' (Suc k + n))"
    by (rule Suc.IH) (use Suc.prems in auto)
  ultimately show ?case
    by (simp add: health_check_until health_check_failed health_check_params)
qed

lemma gate_passed:
  "r_status (w h ''Health check after update'' (k + m)) = 200 \<Longrightarrow> m \<le> n \<Longrightarrow>
   (\<And>j. k \<le> j \<Longrightarrow> j < k + m \<Longrightarrow>
      r_status (w h ''Health check after update'' j) \<noteq> 200) \<Longrightarrow>
   attempt_loop w h health_check_after_update e True k n =
     (attempts h ''Health check after update'' 30 k m, False,
      w h ''Health check after update'' (k + m))"
proof (induction m arbitrary: k n)
  case 0
  then show ?case
    by (cases n) (simp_all add: health_check_until health_check_failed health_check_params)
next
  case (Suc m)
  then obtain n' where n: "n = Suc n'" by (cases n) auto
  have "r_status (w h ''Health check after update'' k) \<noteq> 200"
    using Suc.prems(3) [of k] by simp
  moreover have "attempt_loop w h health_check_after_update e True (Suc k) n' =
     (attempts h ''Health check after update'' 30 (Suc k) m, False,
      w h ''Health check after update'' (Suc k + m))"
    by (rule Suc.IH) (use Suc.prems n in auto)
  ultimately show ?case
    by (simp add: n health_check_until health_check_failed health_check_params)
qed

text \<open>
  C8.  The health gate (\<^verbatim>\<open>Health check after update\<close>, \<^verbatim>\<open>retries: 10\<close>, \<^verbatim>\<open>delay: 30\<close>,
  \<^verbatim>\<open>until: health_check.status == 200\<close>) makes at most eleven probes, any two of them
  separated by a sleep of the same 30 seconds.  The first probe answered with status 200
  ends the loop with success; when none of the eleven probes is answered with 200 the
  task is fatal for the host.  Status 200 is the only answer that counts.
\<close>

theorem health_gate_fixed_budget:
  "((\<forall>j. 1 \<le> j \<and> j \<le> 11 \<longrightarrow> r_status (w h ''Health check after update'' j) \<noteq> 200) \<longrightarrow>
      fst (run_task w h health_check_after_update st) =
        attempts h ''Health check after update'' 30 1 10 @ [Fatal h ''Health check after update'']
      \<and> \<not> alive (snd (run_task w h health_check_after_update st)))
   \<and> (\<forall>m. m \<le> 10 \<and> r_status (w h ''Health check after update'' (Suc m)) = 200
          \<and> (\<forall>j. 1 \<le> j \<and> j \<le> m \<longrightarrow> r_status (w h ''Health check after update'' j) \<noteq> 200) \<longrightarrow>
      fst (run_task w h health_check_after_update st) =
        attempts h ''Health check after update'' 30 1 m
        @ [Succeeded h ''Health check after update'']
      \<and> alive (snd (run_task w h health_check_after_update st)) = alive st)"
proof (intro conjI impI allI)
  assume a: "\<forall>j. 1 \<le> j \<and> j \<le> 11 \<longrightarrow> r_status (w h ''Health check after update'' j) \<noteq> 200"
  have l: "attempt_loop w h health_check_after_update (henv st) True 1 10 =
     (attempts h ''Health check after update'' 30 1 10, True,
      w h ''Health check after update'' (1 + 10))"
    by (rule gate_exhausted) (use a in auto)
  show "fst (run_task w h health_check_after_update st) =
        attempts h ''Health check after update'' 30 1 10 @ [Fatal h ''Health check after update'']"
    using l by (simp add: run_task_def health_check_params)
  show "\<not> alive (snd (run_task w h health_check_after_update st))"
    using l by (simp add: run_task_def health_check_params)
next
  fix m
  assume a: "m \<le> 10 \<and> r_status (w h ''Health check after update'' (Suc m)) = 200
          \<and> (\<forall>j. 1 \<le> j \<and> j \<le> m \<longrightarrow> r_status (w h ''Health check after update'' j) \<noteq> 200)"
  have l: "attempt_loop w h health_check_after_update (henv st) True 1 10 =
     (attempts h ''Health check after update'' 30 1 m, False,
      w h ''Health check after update'' (1 + m))"
    by (rule gate_passed) (use a in auto)
  show "fst (run_task w h health_check_after_update st) =
        attempts h ''Health check after update'' 30 1 m
        @ [Succeeded h ''Health check after update'']"
    using l by (simp add: run_task_def health_check_params)
  show "alive (snd (run_task w h health_check_after_update st)) = alive st"
    using l by (simp add: run_task_def health_check_params)
qed

theorem health_gate_fixed_budget_witness:
  "fst (run_task answers_204 ''web1'' health_check_after_update start_state) =
     attempts ''web1'' ''Health check after update'' 30 1 10
     @ [Fatal ''web1'' ''Health check after update'']
   \<and> fst (run_task all_fine ''web1'' health_check_after_update start_state) =
     [Exec ''web1'' ''Health check after update'' 1,
      Succeeded ''web1'' ''Health check after update'']"
  using health_gate_fixed_budget [of answers_204 "''web1''" start_state]
    health_gate_fixed_budget [of all_fine "''web1''" start_state, THEN conjunct2, THEN spec, of 0]
  by (simp add: answers_204_def all_fine_def fine_def)

text \<open>
  Against C8 as stated: a health endpoint that answers every probe with 204, a 2xx
  status, does not end the loop; all eleven probes are made and the task is fatal.
\<close>

theorem health_gate_204_counterexample:
  "r_status (answers_204 ''web1'' ''Health check after update'' 1) = 204
   \<and> fst (run_task answers_204 ''web1'' health_check_after_update start_state) =
       attempts ''web1'' ''Health check after update'' 30 1 10
       @ [Fatal ''web1'' ''Health check after update'']"
  by code_simp

section \<open>The retry budgets of the two health checks\<close>

text \<open>
  C9.  The check after a rollback does not re-use the budget of the forward health
  gate.  \<^verbatim>\<open>Verify rollback\<close> is written with \<^verbatim>\<open>retries: 5\<close> and \<^verbatim>\<open>delay: 10\<close> and
  without \<^verbatim>\<open>until\<close>; \<^verbatim>\<open>Health check after update\<close> has \<^verbatim>\<open>retries: 10\<close> and
  \<^verbatim>\<open>delay: 30\<close> (the play variables \<^verbatim>\<open>health_check_retries\<close> and
  \<^verbatim>\<open>health_check_delay\<close>) and an \<^verbatim>\<open>until\<close> condition.
\<close>

theorem rollback_check_own_budget:
  "map_option (\<lambda>t. (retries_of (tkeys t), delay_of (tkeys t), until_of (tkeys t)))
     (task_named rolling_update ''Verify rollback'') = Some (Some 5, Some 10, None)
   \<and> map_option (\<lambda>t. (retries_of (tkeys t), delay_of (tkeys t), until_of (tkeys t)))
     (task_named rolling_update ''Health check after update'') =
       Some (Some 10, Some 30, Some (EEq (EVar ''health_check.status'') (ELit (VInt 200))))"
  by code_simp

text \<open>Against C9 as stated: the two tasks differ in retry count and in delay.\<close>

theorem rollback_check_budget_counterexample:
  "map_option (\<lambda>t. retries_of (tkeys t)) (task_named rolling_update ''Verify rollback'')
     \<noteq> map_option (\<lambda>t. retries_of (tkeys t))
         (task_named rolling_update ''Health check after update'')
   \<and> map_option (\<lambda>t. delay_of (tkeys t)) (task_named rolling_update ''Verify rollback'')
     \<noteq> map_option (\<lambda>t. delay_of (tkeys t))
         (task_named rolling_update ''Health check after update'')"
  by code_simp

section \<open>The serial strategy of the rolling update\<close>

lemma rolling_update_serial:
  "run_play w v rolling_update hs =
     run_batches w v (play_steps rolling_update) (map (\<lambda>h. [h]) hs)"
  by (simp add: run_play_def batches_def rolling_update_def chunk_one)

lemma serial_hosts:
  "e \<in> set (run_batches w v ss (map (\<lambda>h. [h]) hs)) \<Longrightarrow> host_of e \<in> set hs"
proof (induction hs)
  case Nil
  then show ?case by simp
next
  case (Cons h hs)
  let ?tr = "fst (run_host w h ss (snd (init_state v h)))"
  from Cons.prems have "e \<in> set ?tr \<or> e = Finished h
      \<or> e \<in> set (run_batches w v ss (map (\<lambda>h. [h]) hs))"
    by (auto simp: run_batches_single simp del: run_batches.simps split: if_splits)
  with Cons.IH run_host_events [of e w h ss "snd (init_state v h)"]
  show ?case by auto
qed

text \<open>
  Whatever has happened so far: when something has happened on a host, every host
  listed before it has passed the whole play.
\<close>

lemma serial_order:
  "distinct hs \<Longrightarrow> prefix pre (run_batches w v ss (map (\<lambda>h. [h]) hs)) \<Longrightarrow>
   hs = as @ a # bs \<Longrightarrow> b \<in> set bs \<Longrightarrow> b \<in> host_of ` set pre \<Longrightarrow>
   Finished a \<in> set pre"
proof (induction hs arbitrary: pre as)
  case Nil
  then show ?case by simp
next
  case (Cons h hs)
  let ?tr = "fst (run_host w h ss (snd (init_state v h)))"
  let ?rest = "run_batches w v ss (map (\<lambda>h. [h]) hs)"
  from Cons.prems obtain e where e: "e \<in> set pre" "host_of e = b" by auto
  from Cons.prems have bh: "b \<noteq> h" "b \<in> set hs"
    by (cases as; auto)+
  have own: "\<And>x. x \<in> set ?tr \<Longrightarrow> host_of x = h"
    using run_host_events [of _ w h ss "snd (init_state v h)"] by blast
  have not_in: "\<not> prefix pre ?tr"
  proof
    assume "prefix pre ?tr"
    with e have "e \<in> set ?tr" using set_mono_prefix by blast
    with own e bh show False by auto
  qed
  have full: "prefix pre (?tr @ Finished h # ?rest)"
  proof (cases "alive (snd (run_host w h ss (snd (init_state v h))))")
    case True
    with Cons.prems(2) show ?thesis by (simp add: run_batches_single del: run_batches.simps)
  next
    case False
    with Cons.prems(2) not_in show ?thesis
      by (simp add: run_batches_single del: run_batches.simps)
  qed
  with not_in obtain us where us: "pre = ?tr @ us" "prefix us (Finished h # ?rest)"
    by (auto simp: prefix_append)
  from us not_in obtain us' where us': "us = Finished h # us'" "prefix us' ?rest"
    by (cases us) auto
  show ?case
  proof (cases as)
    case Nil
    with Cons.prems(3) us us' show ?thesis by simp
  next
    case (Cons a' as')
    with Cons.prems(3) have hs: "hs = as' @ a # bs" by simp
    from e us us' own bh have "e \<in> set us'" by auto
    with e have "b \<in> host_of ` set us'" by auto
    from Cons.IH [OF _ us'(2) hs Cons.prems(4) this] Cons.prems(1)
    have "Finished a \<in> set us'" by simp
    with us us' show ?thesis by simp
  qed
qed

lemma status_Pending: "(status tr h \<noteq> Pending) = (h \<in> host_of ` set tr)"
  by (auto simp: status_def list_ex_iff rev_image_eqI)

lemma status_Committed: "(status tr h = Committed) = (Finished h \<in> set tr)"
  by (auto simp: status_def)

lemma serial_order_nth:
  assumes "distinct hs" "prefix pre (run_batches w v ss (map (\<lambda>h. [h]) hs))"
    "i < j" "j < length hs" "status pre (hs ! j) \<noteq> Pending"
  shows "status pre (hs ! i) = Committed"
proof -
  have "hs = take i hs @ hs ! i # drop (Suc i) hs"
    using assms(3,4) by (simp add: id_take_nth_drop)
  moreover have "hs ! j \<in> set (drop (Suc i) hs)"
    using assms(3,4) by (auto simp: in_set_conv_nth intro!: exI [of _ "j - Suc i"])
  ultimately show ?thesis
    using serial_order [OF assms(1,2), of "take i hs" "hs ! i" "drop (Suc i) hs" "hs ! j"]
      assms(5)
    by (simp add: status_Pending status_Committed)
qed

text \<open>
  C4.  In a rolling update (\<^verbatim>\<open>serial: 1\<close>) over distinct hosts, at every moment of the
  run: at most one host is in a state other than Pending and Committed; a host on which
  anything has happened has all the hosts listed before it Committed; and once a task
  was fatal for a host, the hosts listed after it are still Pending (and stay so: this
  holds at every later moment too).
\<close>

theorem serial_one_host_in_flight:
  assumes "distinct hs" "prefix pre (run_play w v rolling_update hs)"
  shows "card {h \<in> set hs. status pre h \<noteq> Pending \<and> status pre h \<noteq> Committed} \<le> 1
    \<and> (\<forall>i j. i < j \<and> j < length hs \<and> status pre (hs ! j) \<noteq> Pending
          \<longrightarrow> status pre (hs ! i) = Committed)
    \<and> (\<forall>i j. i < j \<and> j < length hs \<and> status pre (hs ! i) = Unhealthy
          \<longrightarrow> status pre (hs ! j) = Pending)"
proof -
  from assms(2) have p: "prefix pre (run_batches w v (play_steps rolling_update)
      (map (\<lambda>h. [h]) hs))"
    by (simp add: rolling_update_serial)
  have order: "status pre (hs ! i) = Committed"
    if "i < j" "j < length hs" "status pre (hs ! j) \<noteq> Pending" for i j
    using serial_order_nth [OF assms(1) p that] .
  let ?S = "{h \<in> set hs. status pre h \<noteq> Pending \<and> status pre h \<noteq> Committed}"
  have "a = b" if "a \<in> ?S" "b \<in> ?S" for a b
  proof (rule ccontr)
    assume ne: "a \<noteq> b"
    from that obtain i j where ij: "i < length hs" "hs ! i = a" "j < length hs" "hs ! j = b"
      by (auto simp: in_set_conv_nth)
    with ne have "i < j \<or> j < i" by (cases "i = j") auto
    then show False
    proof
      assume "i < j"
      from order [OF this ij(3)] ij that show False by auto
    next
      assume "j < i"
      from order [OF this ij(1)] ij that show False by auto
    qed
  qed
  then have "card ?S \<le> 1"
    by (intro card_le_Suc0_iff_eq [THEN iffD2, unfolded One_nat_def [symmetric]]) auto
  moreover have "\<forall>i j. i < j \<and> j < length hs \<and> status pre (hs ! j) \<noteq> Pending
          \<longrightarrow> status pre (hs ! i) = Committed"
    using order by blast
  moreover have "\<forall>i j. i < j \<and> j < length hs \<and> status pre (hs ! i) = Unhealthy
          \<longrightarrow> status pre (hs ! j) = Pending"
  proof (intro allI impI)
    fix i j
    assume h: "i < j \<and> j < length hs \<and> status pre (hs ! i) = Unhealthy"
    show "status pre (hs ! j) = Pending"
    proof (rule ccontr)
      assume "status pre (hs ! j) \<noteq> Pending"
      with order [of i j] h show False by auto
    qed
  qed
  ultimately show ?thesis by blast
qed

text \<open>The run of scenario B, event by event.\<close>

lemma scenario_b_trace:
  "scenario_b =
     [Exec ''web1'' ''Gathering Facts'' 1, Succeeded ''web1'' ''Gathering Facts'',
      Exec ''web1'' ''Check if this is a rolling update'' 1,
      Succeeded ''web1'' ''Check if this is a rolling update'',
      Exec ''web1'' ''Create backup before update'' 1,
      Succeeded ''web1'' ''Create backup before update'',
      Skipped ''web1'' ''Remove server from load balancer'',
      Exec ''web1'' ''Wait for connections to drain'' 1,
      Succeeded ''web1'' ''Wait for connections to drain'',
      Exec ''web1'' ''Stop application service'' 1,
      Succeeded ''web1'' ''Stop application service'',
      Exec ''web1'' ''Update application files'' 1,
      Succeeded ''web1'' ''Update application files'',
      Exec ''web1'' ''Update source directory'' 1,
      Succeeded ''web1'' ''Update source directory'',
      Exec ''web1'' ''Update npm dependencies'' 1,
      Succeeded ''web1'' ''Update npm dependencies'',
      Exec ''web1'' ''Start application service'' 1,
      Succeeded ''web1'' ''Start application service'',
      Exec ''web1'' ''Wait for application to be ready'' 1,
      Succeeded ''web1'' ''Wait for application to be ready'',
      Exec ''web1'' ''Health check after update'' 1,
      Succeeded ''web1'' ''Health check after update'',
      Skipped ''web1'' ''Add server back to load balancer'',
      Exec ''web1'' ''Verify update success'' 1, Succeeded ''web1'' ''Verify update success'',
      Exec ''web1'' ''Clean up old backups'' 1, Succeeded ''web1'' ''Clean up old backups'',
      Exec ''web1'' ''Remove old backups'' 1, Succeeded ''web1'' ''Remove old backups'',
      Finished ''web1'', Exec ''web2'' ''Gathering Facts'' 1,
      Succeeded ''web2'' ''Gathering Facts'',
      Exec ''web2'' ''Check if this is a rolling update'' 1,
      Succeeded ''web2'' ''Check if this is a rolling update'',
      Exec ''web2'' ''Create backup before update'' 1,
      Succeeded ''web2'' ''Create backup before update'',
      Skipped ''web2'' ''Remove server from load balancer'',
      Exec ''web2'' ''Wait for connections to drain'' 1,
      Succeeded ''web2'' ''Wait for connections to drain'',
      Exec ''web2'' ''Stop application service'' 1,
      Succeeded ''web2'' ''Stop application service'',
      Exec ''web2'' ''Update application files'' 1,
      Succeeded ''web2'' ''Update application files'',
      Exec ''web2'' ''Update source directory'' 1,
      Succeeded ''web2'' ''Update source directory'',
      Exec ''web2'' ''Update npm dependencies'' 1,
      Succeeded ''web2'' ''Update npm dependencies'',
      Exec ''web2'' ''Start application service'' 1,
      Succeeded ''web2'' ''Start application service'',
      Exec ''web2'' ''Wait for application to be ready'' 1,
      Succeeded ''web2'' ''Wait for application to be ready'',
      Exec ''web2'' ''Health check after update'' 1, Sleep ''web2'' 30,
      Exec ''web2'' ''Health check after update'' 2, Sleep ''web2'' 30,
      Exec ''web2'' ''Health check after update'' 3, Sleep ''web2'' 30,
      Exec ''web2'' ''Health check after update'' 4, Sleep ''web2'' 30,
      Exec ''web2'' ''Health check after update'' 5, Sleep ''web2'' 30,
      Exec ''web2'' ''Health check after update'' 6, Sleep ''web2'' 30,
      Exec ''web2'' ''Health check after update'' 7, Sleep ''web2'' 30,
      Exec ''web2'' ''Health check after update'' 8, Sleep ''web2'' 30,
      Exec ''web2'' ''Health check after update'' 9, Sleep ''web2'' 30,
      Exec ''web2'' ''Health check after update'' 10, Sleep ''web2'' 30,
      Exec ''web2'' ''Health check after update'' 11,
      Fatal ''web2'' ''Health check after update'']"
  by code_simp

text \<open>Scenario B: host 1 Committed, host 2 Unhealthy, host 3 never started.\<close>

theorem serial_one_host_in_flight_witness:
  "status scenario_b ''web1'' = Committed
   \<and> status scenario_b ''web2'' = Unhealthy
   \<and> status scenario_b ''web3'' = Pending
   \<and> card {h \<in> set [''web1'', ''web2'', ''web3''].
        status scenario_b h \<noteq> Pending \<and> status scenario_b h \<noteq> Committed} \<le> 1"
proof -
  have d: "distinct [''web1'', ''web2'', ''web3'']"
    by simp
  have p: "prefix scenario_b
      (run_play web2_unhealthy no_vars rolling_update [''web1'', ''web2'', ''web3''])"
    by (simp add: scenario_b_def)
  have c: "card {h \<in> set [''web1'', ''web2'', ''web3''].
        status scenario_b h \<noteq> Pending \<and> status scenario_b h \<noteq> Committed} \<le> 1"
    using serial_one_host_in_flight [OF d p] by (rule conjunct1)
  have s1: "status scenario_b ''web1'' = Committed"
    by (simp add: status_def scenario_b_trace)
  have s2: "status scenario_b ''web2'' = Unhealthy"
    by (simp add: status_def scenario_b_trace)
  have s3: "status scenario_b ''web3'' = Pending"
    by (simp add: status_def scenario_b_trace)
  show ?thesis
    using s1 s2 s3 c by (intro conjI)
qed

section \<open>Order of the steps in a rolling update\<close>

lemma rolling_update_backup_step:
  "play_steps rolling_update ! 8 = Do create_backup_before_update"
  by code_simp

lemma rolling_update_gate_step:
  "play_steps rolling_update ! 17 = Do health_check_after_update"
  by code_simp

lemma rolling_update_length: "length (play_steps rolling_update) = 34"
  by code_simp

lemma rolling_update_quiet: "quiet (play_steps rolling_update)"
  by code_simp

lemma rolling_update_before_gate:
  "list_all (\<lambda>n. n \<notin> set (do_names (take (Suc 17) (play_steps rolling_update))))
     [''Clean up old backups'', ''Remove old backups'']"
  by code_simp

lemma sweep_needs_gate:
  "needs (fst (run_host w h (play_steps rolling_update) (snd (init_state v h))))
     {''Clean up old backups'', ''Remove old backups''}
     (\<lambda>h. Succeeded h ''Health check after update'')"
proof -
  have "needs (fst (run_host w h (play_steps rolling_update) (snd (init_state v h))))
     {''Clean up old backups'', ''Remove old backups''}
     (\<lambda>h. Succeeded h (tname health_check_after_update))"
  proof (rule needs_run_host [where i = 17])
    show "17 < length (play_steps rolling_update)"
      by (simp add: rolling_update_length)
    show "play_steps rolling_update ! 17 = Do health_check_after_update"
      by (rule rolling_update_gate_step)
    show "when_of (tkeys health_check_after_update) = []"
      by (rule health_check_params)
    show "\<not> ignore_errors health_check_after_update"
      by (rule health_check_params)
    show "quiet (play_steps rolling_update)"
      by (rule rolling_update_quiet)
    show "notified (snd (init_state v h)) = []"
      by (simp add: init_state_def)
    show "{''Clean up old backups'', ''Remove old backups''}
        \<inter> set (do_names (take (Suc 17) (play_steps rolling_update))) = {}"
      using rolling_update_before_gate by simp
  qed
  then show ?thesis by (simp add: health_check_params)
qed

text \<open>
  C7.  The retention sweep is a post-task of the play, and with \<^verbatim>\<open>serial: 1\<close> the
  whole play, post-tasks included, runs on one host before the next host starts.  So
  the sweep runs once per host, at the end of that host's pass: on a host it never runs
  before that host's own update has passed the health gate.
\<close>

theorem sweep_after_own_health_gate:
  assumes "distinct hs" "i < length (run_play w v rolling_update hs)"
    and "run_play w v rolling_update hs ! i = Exec h n k"
    and "n = ''Clean up old backups'' \<or> n = ''Remove old backups''"
  shows "Succeeded h ''Health check after update''
    \<in> set (take i (run_play w v rolling_update hs))"
proof -
  have "needs (run_play w v rolling_update hs)
      {''Clean up old backups'', ''Remove old backups''}
      (\<lambda>h. Succeeded h ''Health check after update'')"
    by (rule needs_run_play [OF assms(1) sweep_needs_gate])
  from needs_nth [OF this assms(2), of n] assms(3,4) show ?thesis by auto
qed

text \<open>The run of scenario A on two hosts, event by event.\<close>

lemma scenario_a_trace:
  "scenario_a =
     [Exec ''web1'' ''Gathering Facts'' 1, Succeeded ''web1'' ''Gathering Facts'',
      Exec ''web1'' ''Check if this is a rolling update'' 1,
      Succeeded ''web1'' ''Check if this is a rolling update'',
      Exec ''web1'' ''Create backup before update'' 1,
      Succeeded ''web1'' ''Create backup before update'',
      Skipped ''web1'' ''Remove server from load balancer'',
      Exec ''web1'' ''Wait for connections to drain'' 1,
      Succeeded ''web1'' ''Wait for connections to drain'',
      Exec ''web1'' ''Stop application service'' 1,
      Succeeded ''web1'' ''Stop application service'',
      Exec ''web1'' ''Update application files'' 1,
      Succeeded ''web1'' ''Update application files'',
      Exec ''web1'' ''Update source directory'' 1,
      Succeeded ''web1'' ''Update source directory'',
      Exec ''web1'' ''Update npm dependencies'' 1,
      Succeeded ''web1'' ''Update npm dependencies'',
      Exec ''web1'' ''Start application service'' 1,
      Succeeded ''web1'' ''Start application service'',
      Exec ''web1'' ''Wait for application to be ready'' 1,
      Succeeded ''web1'' ''Wait for application to be ready'',
      Exec ''web1'' ''Health check after update'' 1,
      Succeeded ''web1'' ''Health check after update'',
      Skipped ''web1'' ''Add server back to load balancer'',
      Exec ''web1'' ''Verify update success'' 1, Succeeded ''web1'' ''Verify update success'',
      Exec ''web1'' ''Clean up old backups'' 1, Succeeded ''web1'' ''Clean up old backups'',
      Exec ''web1'' ''Remove old backups'' 1, Succeeded ''web1'' ''Remove old backups'',
      Finished ''web1'', Exec ''web2'' ''Gathering Facts'' 1,
      Succeeded ''web2'' ''Gathering Facts'',
      Exec ''web2'' ''Check if this is a rolling update'' 1,
      Succeeded ''web2'' ''Check if this is a rolling update'',
      Exec ''web2'' ''Create backup before update'' 1,
      Succeeded ''web2'' ''Create backup before update'',
      Skipped ''web2'' ''Remove server from load balancer'',
      Exec ''web2'' ''Wait for connections to drain'' 1,
      Succeeded ''web2'' ''Wait for connections to drain'',
      Exec ''web2'' ''Stop application service'' 1,
      Succeeded ''web2'' ''Stop application service'',
      Exec ''web2'' ''Update application files'' 1,
      Succeeded ''web2'' ''Update application files'',
      Exec ''web2'' ''Update source directory'' 1,
      Succeeded ''web2'' ''Update source directory'',
      Exec ''web2'' ''Update npm dependencies'' 1,
      Succeeded ''web2'' ''Update npm dependencies'',
      Exec ''web2'' ''Start application service'' 1,
      Succeeded ''web2'' ''Start application service'',
      Exec ''web2'' ''Wait for application to be ready'' 1,
      Succeeded ''web2'' ''Wait for application to be ready'',
      Exec ''web2'' ''Health check after update'' 1,
      Succeeded ''web2'' ''Health check after update'',
      Skipped ''web2'' ''Add server back to load balancer'',
      Exec ''web2'' ''Verify update success'' 1, Succeeded ''web2'' ''Verify update success'',
      Exec ''web2'' ''Clean up old backups'' 1, Succeeded ''web2'' ''Clean up old backups'',
      Exec ''web2'' ''Remove old backups'' 1, Succeeded ''web2'' ''Remove old backups'',
      Finished ''web2'']"
  by code_simp

theorem sweep_after_own_health_gate_witness:
  "scenario_a ! 26 = Exec ''web1'' ''Clean up old backups'' 1
   \<and> Succeeded ''web1'' ''Health check after update'' \<in> set (take 26 scenario_a)"
proof -
  have d: "distinct [''web1'', ''web2'']"
    by simp
  have l: "26 < length (run_play all_fine no_vars rolling_update [''web1'', ''web2''])"
    unfolding scenario_a_def [symmetric] by (simp add: scenario_a_trace)
  have e: "run_play all_fine no_vars rolling_update [''web1'', ''web2''] ! 26
      = Exec ''web1'' ''Clean up old backups'' 1"
    unfolding scenario_a_def [symmetric] by (simp add: scenario_a_trace)
  have "Succeeded ''web1'' ''Health check after update''
      \<in> set (take 26 (run_play all_fine no_vars rolling_update [''web1'', ''web2'']))"
    by (rule sweep_after_own_health_gate [OF d l e]) simp
  with e show ?thesis
    unfolding scenario_a_def [symmetric] by (intro conjI)
qed

text \<open>
  Against C7 as stated: on two hosts, the sweep of the first host removes old backups
  while the second host is still Pending; the update of the second host (its service is
  stopped at event 40) comes after it.
\<close>

theorem sweep_mid_rollout_counterexample:
  "scenario_a ! 28 = Exec ''web1'' ''Remove old backups'' 1
   \<and> status (take 29 scenario_a) ''web2'' = Pending
   \<and> scenario_a ! 40 = Exec ''web2'' ''Stop application service'' 1"
  by (simp add: scenario_a_trace status_def)

section \<open>The rollback handler\<close>

lemma rolling_update_tasks_only:
  assumes "e \<in> set (run_play w v rolling_update hs)" "task_of e = Some n"
  shows "n \<in> set (do_names (play_steps rolling_update))"
proof -
  from run_play_events [OF assms]
  have "e \<in> set (fst (run_host w (host_of e) (play_steps rolling_update)
      (snd (init_state v (host_of e)))))" by simp
  with run_host_quiet [OF rolling_update_quiet, of "snd (init_state v (host_of e))" w "host_of e"]
    assms(2)
  show ?thesis by (auto simp: init_state_def)
qed

lemma rolling_update_handler_names:
  "list_all (\<lambda>n. n \<notin> set (do_names (play_steps rolling_update)))
     (handler_names rolling_update)"
  by code_simp

text \<open>
  No task of the rolling update notifies the handler \<^verbatim>\<open>rollback on failure\<close>, so in no
  run, on no host, does any task of the handler run.
\<close>

lemma rollback_never_runs:
  assumes "e \<in> set (run_play w v rolling_update hs)" "task_of e = Some n"
  shows "n \<notin> set (handler_names rolling_update)"
  using rolling_update_tasks_only [OF assms] rolling_update_handler_names
  by (auto simp: list_all_iff)

text \<open>A host for which a task was fatal never finishes the play.\<close>

lemma failed_host_never_committed:
  assumes "Fatal h n \<in> set (run_play w v p hs)"
  shows "Finished h \<notin> set (run_play w v p hs)"
proof
  assume "Finished h \<in> set (run_play w v p hs)"
  then have a: "alive (snd (run_host w h (play_steps p) (snd (init_state v h))))"
    by (rule run_play_finished)
  from run_play_events [OF assms, of n]
  have "Fatal h n \<in> set (fst (run_host w h (play_steps p) (snd (init_state v h))))"
    by simp
  then have "list_ex is_fatal (fst (run_host w h (play_steps p) (snd (init_state v h))))"
    unfolding list_ex_iff by force
  with run_host_fatal [of "snd (init_state v h)" w h "play_steps p"] a
  show False by (simp add: init_state_def)
qed

text \<open>
  C1.  Scenario B, as the playbook runs it: the health check of \<open>web2\<close> is fatal after
  eleven probes, the run ends there, \<open>web2\<close> is left Unhealthy, and no task of the
  rollback handler (stop, restore from backup, start, verify) has run on any host.
\<close>

theorem unhealthy_host_is_not_rolled_back:
  "last scenario_b = Fatal ''web2'' ''Health check after update''
   \<and> status scenario_b ''web2'' = Unhealthy
   \<and> \<not> list_ex (\<lambda>e. case task_of e of None \<Rightarrow> False
                        | Some n \<Rightarrow> n \<in> set (handler_names rolling_update)) scenario_b"
proof -
  have "\<not> list_ex (\<lambda>e. case task_of e of None \<Rightarrow> False
                        | Some n \<Rightarrow> n \<in> set (handler_names rolling_update)) scenario_b"
    unfolding list_ex_iff scenario_b_def
    using rollback_never_runs by (auto split: option.splits)
  moreover have "last scenario_b = Fatal ''web2'' ''Health check after update''"
    by (simp add: scenario_b_trace)
  moreover have "status scenario_b ''web2'' = Unhealthy"
    by (simp add: scenario_b_trace status_def)
  ultimately show ?thesis by (intro conjI)
qed

section \<open>Backup before the destructive steps\<close>

subsection \<open>In the rolling update\<close>

lemma rolling_update_backup_params:
  "tname create_backup_before_update = ''Create backup before update''"
  "when_of (tkeys create_backup_before_update) = []"
  "\<not> ignore_errors create_backup_before_update"
  by (simp_all add: create_backup_before_update_def ignore_errors_def)

lemma rolling_update_before_backup:
  "list_all (\<lambda>n. n \<notin> set (do_names (take (Suc 8) (play_steps rolling_update))))
     (destructive_names rolling_update)"
  by code_simp

lemma destructive_needs_backup:
  "needs (fst (run_host w h (play_steps rolling_update) (snd (init_state v h))))
     (set (destructive_names rolling_update))
     (\<lambda>h. Succeeded h ''Create backup before update'')"
proof -
  have "needs (fst (run_host w h (play_steps rolling_update) (snd (init_state v h))))
     (set (destructive_names rolling_update))
     (\<lambda>h. Succeeded h (tname create_backup_before_update))"
  proof (rule needs_run_host [where i = 8])
    show "8 < length (play_steps rolling_update)"
      by (simp add: rolling_update_length)
    show "play_steps rolling_update ! 8 = Do create_backup_before_update"
      by (rule rolling_update_backup_step)
    show "when_of (tkeys create_backup_before_update) = []"
      by (rule rolling_update_backup_params)
    show "\<not> ignore_errors create_backup_before_update"
      by (rule rolling_update_backup_params)
    show "quiet (play_steps rolling_update)"
      by (rule rolling_update_quiet)
    show "notified (snd (init_state v h)) = []"
      by (simp add: init_state_def)
    show "set (destructive_names rolling_update)
        \<inter> set (do_names (take (Suc 8) (play_steps rolling_update))) = {}"
      using rolling_update_before_backup by (auto simp: list_all_iff)
  qed
  then show ?thesis by (simp add: rolling_update_backup_params)
qed

subsection \<open>In the initial deployment\<close>

lemma deploy_stop_step: "play_steps deploy ! 27 = Do stop_application_if_running"
  by code_simp

lemma deploy_backup_step: "play_steps deploy ! 28 = Do create_backup_of_current_application"
  by code_simp

lemma deploy_copy_step: "play_steps deploy ! 29 = Do copy_application_files"
  by code_simp

lemma deploy_length: "length (play_steps deploy) = 73"
  by code_simp

lemma deploy_params:
  "tname stop_application_if_running = ''Stop application if running''"
  "when_of (tkeys stop_application_if_running) = []"
  "tname create_backup_of_current_application = ''Create backup of current application''"
  "ignore_errors create_backup_of_current_application"
  "tname copy_application_files = ''Copy application files''"
  "when_of (tkeys copy_application_files) = []"
  by (simp_all add: stop_application_if_running_def create_backup_of_current_application_def
      copy_application_files_def ignore_errors_def)

lemma deploy_before_backup:
  "''Create backup of current application'' \<notin> set (step_names (take 28 (play_steps deploy)))"
  by code_simp

lemma backup_needs_stop:
  "needs (fst (run_host w h (play_steps deploy) (snd (init_state v h))))
     {''Create backup of current application''}
     (\<lambda>h. Exec h ''Stop application if running'' 1)"
proof -
  have "needs (fst (run_host w h (play_steps deploy) (snd (init_state v h))))
     {''Create backup of current application''}
     (\<lambda>h. Exec h (tname stop_application_if_running) 1)"
  proof (rule needs_started [where i = 27])
    show "27 < length (play_steps deploy)"
      by (simp add: deploy_length)
    show "play_steps deploy ! 27 = Do stop_application_if_running"
      by (rule deploy_stop_step)
    show "when_of (tkeys stop_application_if_running) = []"
      by (rule deploy_params)
    show "{''Create backup of current application''}
        \<inter> set (step_names (take (Suc 27) (play_steps deploy))) = {}"
      using deploy_before_backup by simp
  qed
  then show ?thesis by (simp add: deploy_params)
qed

text \<open>Whatever the backup task of the deployment did on a host, the copy step follows.\<close>

lemma copy_follows_backup:
  assumes "e \<in> set (run_play w v deploy hs)"
    "task_of e = Some ''Create backup of current application''"
  shows "Exec (host_of e) ''Copy application files'' 1 \<in> set (run_play w v deploy hs)"
proof -
  let ?h = "host_of e"
  let ?ss = "play_steps deploy"
  let ?st = "snd (init_state v ?h)"
  from run_play_events [OF assms]
  have h: "?h \<in> set hs" and e: "e \<in> set (fst (run_host w ?h ?ss ?st))"
    by simp_all
  have "alive (snd (run_host w ?h (take 28 ?ss) ?st))"
    by (rule alive_before [where t = create_backup_of_current_application and e = e])
      (use e assms(2) in \<open>simp_all add: deploy_length deploy_backup_step deploy_params
         deploy_before_backup\<close>)
  then have "alive (snd (run_host w ?h (take 29 ?ss) ?st))"
  proof (rule passes)
    show "28 \<le> (29::nat)" by simp
    show "29 \<le> length ?ss" by (simp add: deploy_length)
    fix j :: nat
    assume "28 \<le> j" "j < 29"
    then have "j = 28" by simp
    then show "\<exists>t. ?ss ! j = Do t \<and>
        (ignore_errors t \<or>
         when_of (tkeys t) = [] \<and> total_attempts t = 1
           \<and> \<not> module_failed t (w ?h (tname t) 1))"
      by (simp add: deploy_backup_step deploy_params)
  qed
  then have "Exec ?h (tname copy_application_files) 1 \<in> set (fst (run_host w ?h ?ss ?st))"
    by (rule runs_next) (simp_all add: deploy_length deploy_copy_step deploy_params)
  with one_batch_events [of deploy ?h hs w v] h show ?thesis
    by (auto simp: deploy_params deploy_def)
qed

text \<open>
  C3.  In a rolling update, on every host the backup task has succeeded before any
  destructive step (stopping the service, replacing files, installing dependencies,
  removing files) runs on that host; where the backup fails, none of them runs there.
  The initial deployment is not fail-closed: it has started stopping the service before
  its backup task does anything, and when its backup task failed (the error is ignored)
  or was skipped (\<^verbatim>\<open>backup_before_deploy\<close> false), the files are replaced all the same.
\<close>

theorem backup_before_destructive_steps:
  "(distinct hs \<and> i < length (run_play w v rolling_update hs)
      \<and> run_play w v rolling_update hs ! i = Exec h n k
      \<and> n \<in> set (destructive_names rolling_update)
    \<longrightarrow> Succeeded h ''Create backup before update''
          \<in> set (take i (run_play w v rolling_update hs)))
   \<and> (distinct hs \<and> i < length (run_play w v deploy hs)
        \<and> task_of (run_play w v deploy hs ! i) = Some ''Create backup of current application''
      \<longrightarrow> Exec (host_of (run_play w v deploy hs ! i)) ''Stop application if running'' 1
            \<in> set (take i (run_play w v deploy hs)))
   \<and> (Ignored h ''Create backup of current application'' \<in> set (run_play w v deploy hs)
        \<or> Skipped h ''Create backup of current application'' \<in> set (run_play w v deploy hs)
      \<longrightarrow> Exec h ''Copy application files'' 1 \<in> set (run_play w v deploy hs))"
proof (intro conjI impI)
  assume a: "distinct hs \<and> i < length (run_play w v rolling_update hs)
      \<and> run_play w v rolling_update hs ! i = Exec h n k
      \<and> n \<in> set (destructive_names rolling_update)"
  then have "needs (run_play w v rolling_update hs) (set (destructive_names rolling_update))
      (\<lambda>h. Succeeded h ''Create backup before update'')"
    by (intro needs_run_play destructive_needs_backup) simp
  from needs_nth [OF this, of i n] a
  show "Succeeded h ''Create backup before update''
          \<in> set (take i (run_play w v rolling_update hs))"
    by simp
next
  assume a: "distinct hs \<and> i < length (run_play w v deploy hs)
        \<and> task_of (run_play w v deploy hs ! i) = Some ''Create backup of current application''"
  then have "needs (run_play w v deploy hs) {''Create backup of current application''}
      (\<lambda>h. Exec h ''Stop application if running'' 1)"
    by (intro needs_run_play backup_needs_stop) simp
  from needs_nth [OF this, of i "''Create backup of current application''"] a
  show "Exec (host_of (run_play w v deploy hs ! i)) ''Stop application if running'' 1
            \<in> set (take i (run_play w v deploy hs))"
    by simp
next
  assume "Ignored h ''Create backup of current application'' \<in> set (run_play w v deploy hs)
        \<or> Skipped h ''Create backup of current application'' \<in> set (run_play w v deploy hs)"
  then show "Exec h ''Copy application files'' 1 \<in> set (run_play w v deploy hs)"
  proof
    assume "Ignored h ''Create backup of current application'' \<in> set (run_play w v deploy hs)"
    from copy_follows_backup [OF this] show ?thesis by simp
  next
    assume "Skipped h ''Create backup of current application'' \<in> set (run_play w v deploy hs)"
    from copy_follows_backup [OF this] show ?thesis by simp
  qed
qed

text \<open>A deployment on one host whose backup task fails, event by event.\<close>

lemma deploy_sample_trace:
  "deploy_sample =
     [Exec ''web1'' ''Gathering Facts'' 1, Succeeded ''web1'' ''Gathering Facts'',
      Exec ''web1'' ''Update system packages'' 1, Succeeded ''web1'' ''Update system packages'',
      Exec ''web1'' ''Install basic system packages'' 1,
      Succeeded ''web1'' ''Install basic system packages'',
      Exec ''web1'' ''Configure system limits'' 1,
      Succeeded ''web1'' ''Configure system limits'',
      Exec ''web1'' ''Configure kernel parameters'' 1,
      Succeeded ''web1'' ''Configure kernel parameters'',
      Exec ''web1'' ''Add NodeSource repository'' 1,
      Succeeded ''web1'' ''Add NodeSource repository'', Exec ''web1'' ''Install Node.js'' 1,
      Succeeded ''web1'' ''Install Node.js'', Exec ''web1'' ''Install PM2 globally'' 1,
      Succeeded ''web1'' ''Install PM2 globally'',
      Exec ''web1'' ''Install global npm packages'' 1,
      Succeeded ''web1'' ''Install global npm packages'',
      Skipped ''web1'' ''Add MongoDB repository key'',
      Skipped ''web1'' ''Add MongoDB repository'', Skipped ''web1'' ''Install MongoDB'',
      Skipped ''web1'' ''Configure MongoDB'', Skipped ''web1'' ''Start and enable MongoDB'',
      Skipped ''web1'' ''Install Redis'', Skipped ''web1'' ''Configure Redis'',
      Skipped ''web1'' ''Start and enable Redis'', Exec ''web1'' ''Create application group'' 1,
      Succeeded ''web1'' ''Create application group'',
      Exec ''web1'' ''Create application user'' 1,
      Succeeded ''web1'' ''Create application user'',
      Exec ''web1'' ''Create application directories'' 1,
      Succeeded ''web1'' ''Create application directories'',
      Exec ''web1'' ''Stop application if running'' 1,
      Succeeded ''web1'' ''Stop application if running'',
      Exec ''web1'' ''Create backup of current application'' 1,
      Ignored ''web1'' ''Create backup of current application'',
      Exec ''web1'' ''Copy application files'' 1, Succeeded ''web1'' ''Copy application files'',
      Exec ''web1'' ''Copy source directory'' 1, Succeeded ''web1'' ''Copy source directory'',
      Exec ''web1'' ''Copy public directory'' 1, Succeeded ''web1'' ''Copy public directory'',
      Exec ''web1'' ''Create environment file'' 1,
      Succeeded ''web1'' ''Create environment file'',
      Exec ''web1'' ''Install npm dependencies'' 1,
      Succeeded ''web1'' ''Install npm dependencies'',
      Skipped ''web1'' ''Run application tests'', Skipped ''web1'' ''Setup PM2 startup'',
      Skipped ''web1'' ''Start application with PM2'',
      Exec ''web1'' ''Create systemd service file'' 1,
      Succeeded ''web1'' ''Create systemd service file'', Exec ''web1'' ''Install Nginx'' 1,
      Succeeded ''web1'' ''Install Nginx'',
      Exec ''web1'' ''Remove default Nginx configuration'' 1,
      Succeeded ''web1'' ''Remove default Nginx configuration'',
      Exec ''web1'' ''Configure Nginx site'' 1, Succeeded ''web1'' ''Configure Nginx site'',
      Exec ''web1'' ''Enable Nginx site'' 1, Succeeded ''web1'' ''Enable Nginx site'',
      Exec ''web1'' ''Configure Nginx global settings'' 1,
      Succeeded ''web1'' ''Configure Nginx global settings'',
      Exec ''web1'' ''Test Nginx configuration'' 1,
      Succeeded ''web1'' ''Test Nginx configuration'',
      Skipped ''web1'' ''Obtain SSL certificate with Certbot'', Exec ''web1'' ''Install UFW'' 1,
      Succeeded ''web1'' ''Install UFW'', Exec ''web1'' ''Configure UFW rules'' 1,
      Succeeded ''web1'' ''Configure UFW rules'', Exec ''web1'' ''Enable UFW'' 1,
      Succeeded ''web1'' ''Enable UFW'', Exec ''web1'' ''Install monitoring tools'' 1,
      Succeeded ''web1'' ''Install monitoring tools'',
      Exec ''web1'' ''Create monitoring script'' 1,
      Succeeded ''web1'' ''Create monitoring script'', Exec ''web1'' ''Setup log rotation'' 1,
      Succeeded ''web1'' ''Setup log rotation'',
      Exec ''web1'' ''Setup application health check cron job'' 1,
      Succeeded ''web1'' ''Setup application health check cron job'',
      Exec ''web1'' ''Setup backup cron job'' 1, Succeeded ''web1'' ''Setup backup cron job'',
      Exec ''web1'' ''Start and enable services'' 1,
      Succeeded ''web1'' ''Start and enable services'',
      Skipped ''web1'' ''Enable services (PM2 mode)'',
      Exec ''web1'' ''Wait for application to start'' 1,
      Succeeded ''web1'' ''Wait for application to start'',
      Exec ''web1'' ''Test application health endpoint'' 1,
      Succeeded ''web1'' ''Test application health endpoint'',
      Exec ''web1'' ''Test Nginx proxy'' 1, Succeeded ''web1'' ''Test Nginx proxy'',
      Exec ''web1'' ''Display deployment results'' 1,
      Succeeded ''web1'' ''Display deployment results'', Exec ''web1'' ''reload systemd'' 1,
      Succeeded ''web1'' ''reload systemd'', Exec ''web1'' ''restart nodejs app'' 1,
      Succeeded ''web1'' ''restart nodejs app'', Exec ''web1'' ''restart nginx'' 1,
      Succeeded ''web1'' ''restart nginx'', Finished ''web1'']"
  by code_simp

theorem backup_before_destructive_steps_witness:
  "scenario_a ! 9 = Exec ''web1'' ''Stop application service'' 1
   \<and> Succeeded ''web1'' ''Create backup before update'' \<in> set (take 9 scenario_a)
   \<and> deploy_sample ! 34 = Exec ''web1'' ''Create backup of current application'' 1
   \<and> Exec ''web1'' ''Stop application if running'' 1 \<in> set (take 34 deploy_sample)
   \<and> Ignored ''web1'' ''Create backup of current application'' \<in> set deploy_sample
   \<and> Exec ''web1'' ''Copy application files'' 1 \<in> set deploy_sample"
proof -
  have a1: "scenario_a ! 9 = Exec ''web1'' ''Stop application service'' 1"
    by (simp add: scenario_a_trace)
  have a2: "distinct [''web1'', ''web2''] \<and> 9 < length scenario_a
      \<and> scenario_a ! 9 = Exec ''web1'' ''Stop application service'' 1
      \<and> ''Stop application service'' \<in> set (destructive_names rolling_update)"
  proof (intro conjI)
    show "''Stop application service'' \<in> set (destructive_names rolling_update)"
      by code_simp
  qed (simp_all add: scenario_a_trace)
  have b1: "deploy_sample ! 34 = Exec ''web1'' ''Create backup of current application'' 1"
    by (simp add: deploy_sample_trace)
  have b2: "distinct [''web1''] \<and> 34 < length deploy_sample
      \<and> task_of (deploy_sample ! 34) = Some ''Create backup of current application''"
    by (simp add: deploy_sample_trace)
  have c1: "Ignored ''web1'' ''Create backup of current application'' \<in> set deploy_sample"
    by (simp add: deploy_sample_trace)
  note t1 = backup_before_destructive_steps
    [of "[''web1'', ''web2'']" 9 all_fine no_vars "''web1''" "''Stop application service''" 1,
     folded scenario_a_def, THEN conjunct1, THEN mp, OF a2]
  note t2 = backup_before_destructive_steps
    [of "[''web1'']" 34 backup_fails debian "''web1''" "''x''" 1,
     folded deploy_sample_def, THEN conjunct2, THEN conjunct1, THEN mp, OF b2]
  note t3 = backup_before_destructive_steps
    [of "[''web1'']" 34 backup_fails debian "''web1''" "''x''" 1,
     folded deploy_sample_def, THEN conjunct2, THEN conjunct2, THEN mp, OF disjI1, OF c1]
  from t2 b1 have t2': "Exec ''web1'' ''Stop application if running'' 1
      \<in> set (take 34 deploy_sample)"
    by simp
  show ?thesis
    using a1 t1 b1 t2' c1 t3 by (intro conjI)
qed

text \<open>
  Against C3 as stated: in a deployment whose backup task fails, the service has been
  stopped before the backup is attempted, the failure is ignored, no backup exists, and
  the application files are replaced next.
\<close>

theorem deploy_backup_counterexample:
  "deploy_sample ! 32 = Exec ''web1'' ''Stop application if running'' 1
   \<and> deploy_sample ! 34 = Exec ''web1'' ''Create backup of current application'' 1
   \<and> deploy_sample ! 35 = Ignored ''web1'' ''Create backup of current application''
   \<and> deploy_sample ! 36 = Exec ''web1'' ''Copy application files'' 1
   \<and> Succeeded ''web1'' ''Create backup of current application'' \<notin> set deploy_sample"
  by (simp add: deploy_sample_trace)

section \<open>The retention sweep\<close>

subsection \<open>What the sweep looks for\<close>

lemma clean_up_params:
  "Option.bind (arg_of clean_up_old_backups ''paths'') (render rolling_update_vars)
     = Some ''/opt/backups''"
  "Option.bind (arg_of clean_up_old_backups ''patterns'') (render rolling_update_vars)
     = Some ''nodejs-ansible-deploy-*.tar.gz''"
  "arg_of clean_up_old_backups ''age'' = Some ''7d''"
  "age_seconds ''7d'' = Some 604800"
  by code_simp+

lemma remove_old_params:
  "tmodule remove_old_backups = ''file''"
  "arg_of remove_old_backups ''path'' = Some ''{{ item.path }}''"
  "arg_of remove_old_backups ''state'' = Some ''absent''"
  by code_simp+

lemma is_backup_iff:
  "is_backup f =
     (dirname (fpath f) = ''/opt/backups'' \<and> fkind f = Regular
      \<and> glob ''nodejs-ansible-deploy-*.tar.gz'' (basename (fpath f)))"
  unfolding is_backup_def find_matches_def clean_up_params by simp

lemma expired_iff: "expired now f = (is_backup f \<and> 7 * 86400 \<le> now - fmtime f)"
  by (simp add: expired_def find_aged_def clean_up_params)

lemma remove_old_filter:
  "remove_old found files = filter (\<lambda>g. fpath g \<notin> fpath ` set found) files"
proof -
  have "fold (\<lambda>f d. remove_path (fpath f) d) found files =
      filter (\<lambda>g. fpath g \<notin> fpath ` set found) files"
  proof (induction found arbitrary: files)
    case Nil
    then show ?case by simp
  next
    case (Cons f found)
    have "fold (\<lambda>f d. remove_path (fpath f) d) (f # found) files =
        filter (\<lambda>g. fpath g \<notin> fpath ` set found) (remove_path (fpath f) files)"
      by (simp add: Cons.IH)
    also have "\<dots> = filter (\<lambda>g. fpath g \<notin> fpath ` set (f # found)) files"
      by (simp add: remove_path_def conj_commute)
    finally show ?case .
  qed
  then show ?thesis
    unfolding remove_old_def remove_old_params by simp
qed

lemma sweep_filter:
  assumes "distinct (map fpath files)"
  shows "sweep now files = filter (\<lambda>f. \<not> expired now f) files"
proof -
  have inj: "inj_on fpath (set files)"
    using assms by (simp add: distinct_map)
  have "\<And>g. g \<in> set files \<Longrightarrow>
      (fpath g \<notin> fpath ` set (filter (expired now) files)) = (\<not> expired now g)"
  proof -
    fix g
    assume g: "g \<in> set files"
    show "(fpath g \<notin> fpath ` set (filter (expired now) files)) = (\<not> expired now g)"
    proof
      assume "fpath g \<notin> fpath ` set (filter (expired now) files)"
      with g show "\<not> expired now g" by auto
    next
      assume n: "\<not> expired now g"
      show "fpath g \<notin> fpath ` set (filter (expired now) files)"
      proof
        assume "fpath g \<in> fpath ` set (filter (expired now) files)"
        then obtain f where f: "f \<in> set files" "expired now f" "fpath g = fpath f" by auto
        with inj g have "g = f" by (auto dest: inj_onD)
        with f n show False by simp
      qed
    qed
  qed
  then show ?thesis
    unfolding sweep_def find_old_def remove_old_filter
    by (intro filter_cong) auto
qed

subsection \<open>The backup that the run has written\<close>

lemma path_split:
  assumes "CHR ''/'' \<notin> set n"
  shows "dirname (d @ CHR ''/'' # n) = d" and "basename (d @ CHR ''/'' # n) = n"
proof -
  have r: "rev (d @ CHR ''/'' # n) = rev n @ CHR ''/'' # rev d"
    by simp
  have a: "\<And>x. x \<in> set (rev n) \<Longrightarrow> x \<noteq> CHR ''/''"
    using assms by auto
  have "dropWhile (\<lambda>c. c \<noteq> CHR ''/'') (rev n @ CHR ''/'' # rev d) = CHR ''/'' # rev d"
    using dropWhile_append2 [of "rev n" "\<lambda>c. c \<noteq> CHR ''/''" "CHR ''/'' # rev d", OF a]
    by simp
  then show "dirname (d @ CHR ''/'' # n) = d"
    unfolding dirname_def r by simp
  have "takeWhile (\<lambda>c. c \<noteq> CHR ''/'') (rev n @ CHR ''/'' # rev d) = rev n"
    using takeWhile_append2 [of "rev n" "\<lambda>c. c \<noteq> CHR ''/''" "CHR ''/'' # rev d", OF a]
    by simp
  then show "basename (d @ CHR ''/'' # n) = n"
    unfolding basename_def r by simp
qed

lemma glob_star: "glob ps s \<Longrightarrow> glob (CHR ''*'' # ps) (x @ s)"
proof (induction x)
  case Nil
  then show ?case by (cases s) auto
next
  case (Cons a x)
  then show ?case by simp
qed

lemma backup_dest_path:
  "backup_dest e = Some (''/opt/backups/nodejs-ansible-deploy-pre-update-'' @ e @ ''.tar.gz'')"
proof -
  have a: "arg_of create_backup_before_update ''dest'' =
      Some ''{{ backup_dir }}/{{ app_name }}-pre-update-{{ ansible_date_time.epoch }}.tar.gz''"
    by code_simp
  show ?thesis
    unfolding backup_dest_def a
    by (simp add: render_def rolling_update_vars_def)
qed

lemma written_is_backup:
  assumes "CHR ''/'' \<notin> set e"
  shows "is_backup \<lparr>fpath = ''/opt/backups/nodejs-ansible-deploy-pre-update-'' @ e @ ''.tar.gz'',
      fmtime = t, fkind = Regular\<rparr>"
proof -
  let ?n = "''nodejs-ansible-deploy-pre-update-'' @ e @ ''.tar.gz''"
  have n: "CHR ''/'' \<notin> set ?n"
    using assms by simp
  have p: "''/opt/backups/nodejs-ansible-deploy-pre-update-'' @ e @ ''.tar.gz''
      = ''/opt/backups'' @ CHR ''/'' # ?n"
    by simp
  have g: "glob ''nodejs-ansible-deploy-*.tar.gz'' ?n"
    using glob_star [of "''.tar.gz''" "''.tar.gz''" "''pre-update-'' @ e"] by simp
  show ?thesis
    unfolding is_backup_iff
    by (simp only: p path_split [OF n] g dirent.simps)
qed

lemma archive_backup_eq:
  "archive_backup e t files =
     remove_path (''/opt/backups/nodejs-ansible-deploy-pre-update-'' @ e @ ''.tar.gz'') files
     @ [\<lparr>fpath = ''/opt/backups/nodejs-ansible-deploy-pre-update-'' @ e @ ''.tar.gz'',
         fmtime = t, fkind = Regular\<rparr>]"
  unfolding archive_backup_def backup_dest_path by simp

lemma archive_backup_distinct:
  assumes "distinct (map fpath files)"
  shows "distinct (map fpath (archive_backup e t files))"
proof -
  let ?p = "''/opt/backups/nodejs-ansible-deploy-pre-update-'' @ e @ ''.tar.gz''"
  have "distinct (map fpath (remove_path ?p files))"
    unfolding remove_path_def by (rule distinct_map_filter [OF assms])
  moreover have "?p \<notin> fpath ` set (remove_path ?p files)"
    unfolding remove_path_def by auto
  ultimately show ?thesis
    unfolding archive_backup_eq by simp
qed

subsection \<open>The sweep comes after the backup\<close>

lemma rolling_update_sweep_after_backup:
  "list_all (\<lambda>n. n \<notin> set (do_names (take (Suc 8) (play_steps rolling_update))))
     [''Clean up old backups'', ''Remove old backups'']"
  by code_simp

lemma sweep_needs_backup:
  "needs (fst (run_host w h (play_steps rolling_update) (snd (init_state v h))))
     {''Clean up old backups'', ''Remove old backups''}
     (\<lambda>h. Succeeded h ''Create backup before update'')"
proof -
  have "needs (fst (run_host w h (play_steps rolling_update) (snd (init_state v h))))
     {''Clean up old backups'', ''Remove old backups''}
     (\<lambda>h. Succeeded h (tname create_backup_before_update))"
  proof (rule needs_run_host [where i = 8])
    show "8 < length (play_steps rolling_update)"
      by (simp add: rolling_update_length)
    show "play_steps rolling_update ! 8 = Do create_backup_before_update"
      by (rule rolling_update_backup_step)
    show "when_of (tkeys create_backup_before_update) = []"
      by (rule rolling_update_backup_params)
    show "\<not> ignore_errors create_backup_before_update"
      by (rule rolling_update_backup_params)
    show "quiet (play_steps rolling_update)"
      by (rule rolling_update_quiet)
    show "notified (snd (init_state v h)) = []"
      by (simp add: init_state_def)
    show "{''Clean up old backups'', ''Remove old backups''}
        \<inter> set (do_names (take (Suc 8) (play_steps rolling_update))) = {}"
      using rolling_update_sweep_after_backup by simp
  qed
  then show ?thesis by (simp add: rolling_update_backup_params)
qed


text \<open>
  A host whose backups are 8 and 10 days old: the run writes its backup, and ten minutes
  later the sweep removes the two old backups and leaves the new one, and the file that
  is no backup.
\<close>

lemma old_dir_swept:
  "sweep 1700864000 (archive_backup ''1700863380'' 1700863400 old_dir) =
     [\<lparr>fpath = ''/opt/backups/notes.txt'', fmtime = 1600000000, fkind = Regular\<rparr>,
      \<lparr>fpath = ''/opt/backups/nodejs-ansible-deploy-pre-update-1700863380.tar.gz'',
       fmtime = 1700863400, fkind = Regular\<rparr>]"
  by code_simp


section \<open>Disaster recovery\<close>

subsection \<open>Validation of the supplied backup\<close>

lemma attempt_loop_single:
  "attempt_loop w h t e False k 0 =
     ([Exec h (tname t) k], module_failed t (w h (tname t) k), w h (tname t) k)"
  by (simp add: Let_def)

lemma run_task_once:
  assumes "total_attempts t = 1" "when_holds (henv st) (when_of (tkeys t)) = Some True"
  shows "run_task w h t st =
     (if module_failed t (w h (tname t) 1)
      then (if ignore_errors t
            then ([Exec h (tname t) 1, Ignored h (tname t)],
                  st\<lparr>henv := bind_result t True (w h (tname t) 1) (henv st)\<rparr>)
            else ([Exec h (tname t) 1, Fatal h (tname t)],
                  st\<lparr>alive := False, henv := bind_result t True (w h (tname t) 1) (henv st)\<rparr>))
      else ([Exec h (tname t) 1, Succeeded h (tname t)],
            st\<lparr>henv := bind_result t False (w h (tname t) 1) (henv st),
               notified := (if module_changed t (w h (tname t) 1)
                            then notified st @ notify_of (tkeys t) else notified st)\<rparr>))"
  using assms by (simp add: run_task_def attempt_loop_single)

lemma run_task_skip:
  assumes "when_holds (henv st) (when_of (tkeys t)) = Some False"
  shows "run_task w h t st = ([Skipped h (tname t)], st)"
  using assms by (simp add: run_task_def)

lemma run_task_env:
  assumes "register_of (tkeys t) = None"
  shows "henv (snd (run_task w h t st)) = henv st"
  using assms
  by (auto simp: run_task_def bind_result_def Let_def split_beta split: option.splits bool.splits)

lemma recovery_first_steps:
  "take 5 (play_steps disaster_recovery) =
     [Do gather_facts, Flush, Do check_if_recovery_backup_is_specified,
      Do verify_backup_file_exists, Do fail_if_backup_file_doesnt_exist]"
  by code_simp

lemma recovery_first_names:
  "step_names (take 5 (play_steps disaster_recovery)) =
     [''Gathering Facts'', ''Check if recovery backup is specified'',
      ''Verify backup file exists'', ''Fail if backup file doesn't exist'']"
  by code_simp

lemma recovery_one_batch: "serial disaster_recovery = None"
  by (simp add: disaster_recovery_def)

lemma check_params:
  "register_of (tkeys gather_facts) = None"
  "register_of (tkeys check_if_recovery_backup_is_specified) = None"
  "total_attempts check_if_recovery_backup_is_specified = 1"
  "module_failed check_if_recovery_backup_is_specified r"
  "\<not> ignore_errors check_if_recovery_backup_is_specified"
  "when_of (tkeys check_if_recovery_backup_is_specified) =
     [EEq (EDefault (EVar ''backup_restore_path'') (VStr [])) (ELit (VStr []))]"
  "tname verify_backup_file_exists = ''Verify backup file exists''"
  "total_attempts verify_backup_file_exists = 1"
  "when_of (tkeys verify_backup_file_exists) = []"
  "\<not> ignore_errors verify_backup_file_exists"
  "bind_result verify_backup_file_exists f r e ''backup_file.stat.exists''
     = Some (VBool (r_exists r))"
  "total_attempts fail_if_backup_file_doesnt_exist = 1"
  "module_failed fail_if_backup_file_doesnt_exist r"
  "\<not> ignore_errors fail_if_backup_file_doesnt_exist"
  "when_of (tkeys fail_if_backup_file_doesnt_exist) = [ENot (EVar ''backup_file.stat.exists'')]"
  by (simp_all add: gather_facts_def check_if_recovery_backup_is_specified_def
      verify_backup_file_exists_def fail_if_backup_file_doesnt_exist_def total_attempts_def
      module_failed_def ignore_errors_def bind_result_def)

text \<open>
  With no backup path, an empty one, or a path at which \<^verbatim>\<open>stat\<close> finds nothing, a host
  is out of the play after fact gathering and the three checks.
\<close>

lemma recovery_refused:
  assumes "v h ''backup_restore_path'' = None \<or> v h ''backup_restore_path'' = Some (VStr [])
    \<or> \<not> r_exists (w h ''Verify backup file exists'' 1)"
  shows "\<not> alive (snd (run_host w h (take 5 (play_steps disaster_recovery))
      (snd (init_state v h))))"
proof -
  let ?s0 = "snd (init_state v h)"
  define s1 where "s1 = snd (run_step w h (Do gather_facts) ?s0)"
  define s2 where "s2 = snd (run_step w h Flush s1)"
  define s3 where "s3 = snd (run_step w h (Do check_if_recovery_backup_is_specified) s2)"
  define s4 where "s4 = snd (run_step w h (Do verify_backup_file_exists) s3)"
  define s5 where "s5 = snd (run_step w h (Do fail_if_backup_file_doesnt_exist) s4)"
  have run: "snd (run_host w h (take 5 (play_steps disaster_recovery)) ?s0) = s5"
    by (simp add: recovery_first_steps split_beta s1_def s2_def s3_def s4_def s5_def)
  have e1: "henv s1 = v h"
    by (simp add: s1_def init_state_def run_task_env check_params)
  have e2: "henv s2 = v h" and a2: "alive s2 = alive s1"
    by (simp_all add: s2_def e1)
  have "\<not> alive s5"
  proof (cases "alive s2")
    case False
    from run_step_dead [OF False] have "\<not> alive s3" unfolding s3_def by blast
    from run_step_dead [OF this] have "\<not> alive s4" unfolding s4_def by blast
    from run_step_dead [OF this] show ?thesis unfolding s5_def by blast
  next
    case True
    show ?thesis
    proof (cases "v h ''backup_restore_path'' = None
        \<or> v h ''backup_restore_path'' = Some (VStr [])")
      case missing: True
      then have "when_holds (henv s2) (when_of (tkeys check_if_recovery_backup_is_specified))
          = Some True"
        by (auto simp: e2 check_params)
      then have "\<not> alive s3"
        using True by (simp add: s3_def run_task_once check_params)
      from run_step_dead [OF this] have "\<not> alive s4" unfolding s4_def by blast
      from run_step_dead [OF this] show ?thesis unfolding s5_def by blast
    next
      case given: False
      with assms have ne: "\<not> r_exists (w h ''Verify backup file exists'' 1)" by blast
      from given have "when_holds (henv s2)
          (when_of (tkeys check_if_recovery_backup_is_specified)) = Some False"
        by (cases "v h ''backup_restore_path''") (auto simp: e2 check_params)
      then have s3: "s3 = s2"
        using True by (simp add: s3_def run_task_skip)
      show ?thesis
      proof (cases "alive s4")
        case False
        from run_step_dead [OF this] show ?thesis unfolding s5_def by blast
      next
        case alive4: True
        have "henv s4 ''backup_file.stat.exists''
            = Some (VBool (r_exists (w h ''Verify backup file exists'' 1)))"
          using True alive4
          by (simp add: s4_def s3 run_task_once check_params split: if_splits)
        with ne have "when_holds (henv s4) (when_of (tkeys fail_if_backup_file_doesnt_exist))
            = Some True"
          by (simp add: check_params)
        then show ?thesis
          using alive4 by (simp add: s5_def run_task_once check_params)
      qed
    qed
  qed
  with run show ?thesis by simp
qed

text \<open>
  C5.  Disaster recovery checks two things before it touches a host: that a backup path
  was given (\<^verbatim>\<open>backup_restore_path\<close> defined and not empty) and that \<^verbatim>\<open>stat\<close> finds a
  file there.  When a host has no path, an empty path, or no file at the path, the play
  is fatal for it during these checks: the host ends Unhealthy, and the only modules that
  ran on it are fact gathering and the three checks; no service was stopped, nothing
  removed.  Size and archive format of the file are not looked at.
\<close>

theorem recovery_refuses_missing_backup:
  assumes "h \<in> set hs"
    and "v h ''backup_restore_path'' = None \<or> v h ''backup_restore_path'' = Some (VStr [])
      \<or> \<not> r_exists (w h ''Verify backup file exists'' 1)"
  shows "status (run_play w v disaster_recovery hs) h = Unhealthy
    \<and> (\<forall>n k. Exec h n k \<in> set (run_play w v disaster_recovery hs) \<longrightarrow>
          n \<in> set [''Gathering Facts'', ''Check if recovery backup is specified'',
                   ''Verify backup file exists'', ''Fail if backup file doesn't exist''])"
proof -
  let ?ss = "play_steps disaster_recovery"
  let ?st = "snd (init_state v h)"
  let ?tr = "run_play w v disaster_recovery hs"
  let ?T = "fst (run_host w h ?ss ?st)"
  have dead4: "\<not> alive (snd (run_host w h (take 5 ?ss) ?st))"
    using recovery_refused [of v h w] assms(2) by blast
  have T: "?T = fst (run_host w h (take 5 ?ss) ?st)"
    using run_host_split [of w h ?ss ?st 5] run_host_dead [OF dead4, of w h "drop 5 ?ss"]
    by simp
  have dead: "\<not> alive (snd (run_host w h ?ss ?st))"
    using run_host_append [of w h "take 5 ?ss" "drop 5 ?ss" ?st]
      run_host_dead [OF dead4, of w h "drop 5 ?ss"]
    by simp
  have names: "n \<in> set [''Gathering Facts'', ''Check if recovery backup is specified'',
                   ''Verify backup file exists'', ''Fail if backup file doesn't exist'']"
    if "Exec h n k \<in> set ?tr" for n k
  proof -
    from run_play_events [OF that, of n] have "Exec h n k \<in> set ?T" by simp
    with T have "Exec h n k \<in> set (fst (run_host w h (take 5 ?ss) ?st))" by simp
    from step_names_events [OF this, of n] show ?thesis
      by (simp add: recovery_first_names)
  qed
  have nofin: "Finished h \<notin> set ?tr"
    using run_play_finished [of h w v disaster_recovery hs] dead by blast
  have "list_ex is_fatal ?T"
    using run_host_fatal [of ?st w h ?ss] dead by (simp add: init_state_def)
  then obtain e where e: "e \<in> set ?T" "is_fatal e"
    unfolding list_ex_iff by blast
  from run_host_events [OF e(1)] have "host_of e = h" by simp
  moreover from e(1) one_batch_events [OF recovery_one_batch assms(1), of w v]
  have "e \<in> set ?tr" by blast
  ultimately have "list_ex (\<lambda>e. is_fatal e \<and> host_of e = h) ?tr"
    using e(2) unfolding list_ex_iff by blast
  with nofin have "status ?tr h = Unhealthy"
    by (simp add: status_def)
  with names show ?thesis by blast
qed

text \<open>A recovery on two hosts with a path at which there is no file, event by event.\<close>

lemma recovery_missing_trace:
  "recovery_missing =
     [Exec ''web1'' ''Gathering Facts'' 1, Succeeded ''web1'' ''Gathering Facts'',
      Exec ''web2'' ''Gathering Facts'' 1, Succeeded ''web2'' ''Gathering Facts'',
      Skipped ''web1'' ''Check if recovery backup is specified'',
      Skipped ''web2'' ''Check if recovery backup is specified'',
      Exec ''web1'' ''Verify backup file exists'' 1,
      Succeeded ''web1'' ''Verify backup file exists'',
      Exec ''web2'' ''Verify backup file exists'' 1,
      Succeeded ''web2'' ''Verify backup file exists'',
      Exec ''web1'' ''Fail if backup file doesn't exist'' 1,
      Fatal ''web1'' ''Fail if backup file doesn't exist'',
      Exec ''web2'' ''Fail if backup file doesn't exist'' 1,
      Fatal ''web2'' ''Fail if backup file doesn't exist'']"
  by code_simp

theorem recovery_refuses_missing_backup_witness:
  "\<not> r_exists (backup_missing ''web1'' ''Verify backup file exists'' 1)
   \<and> status recovery_missing ''web1'' = Unhealthy
   \<and> Exec ''web1'' ''Stop all services'' 1 \<notin> set recovery_missing
   \<and> Exec ''web1'' ''Remove current application directory'' 1 \<notin> set recovery_missing"
proof -
  have h: "''web1'' \<in> set [''web1'', ''web2'']"
    by simp
  have m: "\<not> r_exists (backup_missing ''web1'' ''Verify backup file exists'' 1)"
    by (simp add: backup_missing_def)
  then have m': "with_backup_path ''web1'' ''backup_restore_path'' = None
      \<or> with_backup_path ''web1'' ''backup_restore_path'' = Some (VStr [])
      \<or> \<not> r_exists (backup_missing ''web1'' ''Verify backup file exists'' 1)"
    by simp
  have t: "status recovery_missing ''web1'' = Unhealthy
    \<and> (\<forall>n k. Exec ''web1'' n k \<in> set recovery_missing \<longrightarrow>
          n \<in> set [''Gathering Facts'', ''Check if recovery backup is specified'',
                   ''Verify backup file exists'', ''Fail if backup file doesn't exist''])"
    unfolding recovery_missing_def
    using recovery_refuses_missing_backup
      [of "''web1''" "[''web1'', ''web2'']" with_backup_path backup_missing] h m'
    by blast
  from t have s: "status recovery_missing ''web1'' = Unhealthy"
    by (rule conjunct1)
  from t have a: "\<And>n k. Exec ''web1'' n k \<in> set recovery_missing \<Longrightarrow>
      n \<in> set [''Gathering Facts'', ''Check if recovery backup is specified'',
               ''Verify backup file exists'', ''Fail if backup file doesn't exist'']"
    by blast
  have n1: "Exec ''web1'' ''Stop all services'' 1 \<notin> set recovery_missing"
    using a [of "''Stop all services''" 1] by auto
  have n2: "Exec ''web1'' ''Remove current application directory'' 1 \<notin> set recovery_missing"
    using a [of "''Remove current application directory''" 1] by auto
  show ?thesis
    using m s n1 n2 by (intro conjI)
qed

text \<open>A recovery from an existing but empty backup file, event by event.\<close>

lemma recovery_empty_trace:
  "recovery_empty =
     [Exec ''web1'' ''Gathering Facts'' 1, Succeeded ''web1'' ''Gathering Facts'',
      Skipped ''web1'' ''Check if recovery backup is specified'',
      Exec ''web1'' ''Verify backup file exists'' 1,
      Succeeded ''web1'' ''Verify backup file exists'',
      Skipped ''web1'' ''Fail if backup file doesn't exist'',
      Exec ''web1'' ''Stop all services'' 1, Succeeded ''web1'' ''Stop all services'',
      Exec ''web1'' ''Create current state backup before recovery'' 1,
      Succeeded ''web1'' ''Create current state backup before recovery'',
      Exec ''web1'' ''Remove current application directory'' 1,
      Succeeded ''web1'' ''Remove current application directory'',
      Exec ''web1'' ''Recreate application directory'' 1,
      Succeeded ''web1'' ''Recreate application directory'',
      Exec ''web1'' ''Copy backup file to remote server'' 1,
      Succeeded ''web1'' ''Copy backup file to remote server'',
      Exec ''web1'' ''Restore application from backup'' 1,
      Fatal ''web1'' ''Restore application from backup'']"
  by code_simp

text \<open>
  Against C5 as stated: a backup file that exists but has size zero passes the checks.
  The services are stopped and the application directory is removed; only then does
  the restore fail, and the play ends with the host failed and the directory empty.
\<close>

theorem recovery_empty_backup_counterexample:
  "r_exists (empty_backup ''web1'' ''Verify backup file exists'' 1)
   \<and> r_size (empty_backup ''web1'' ''Verify backup file exists'' 1) = 0
   \<and> recovery_empty ! 6 = Exec ''web1'' ''Stop all services'' 1
   \<and> recovery_empty ! 10 = Exec ''web1'' ''Remove current application directory'' 1
   \<and> last recovery_empty = Fatal ''web1'' ''Restore application from backup''"
  by (simp add: recovery_empty_trace empty_backup_def)

subsection \<open>What the tasks of the restore write\<close>

lemma recovery_task_args:
  "tmodule remove_current_application_directory = ''file''"
  "Option.bind (arg_of remove_current_application_directory ''path'')
     (render disaster_recovery_vars) = Some ''/opt/nodejs-app''"
  "arg_of remove_current_application_directory ''state'' = Some ''absent''"
  "tmodule recreate_application_directory = ''file''"
  "Option.bind (arg_of recreate_application_directory ''path'')
     (render disaster_recovery_vars) = Some ''/opt/nodejs-app''"
  "arg_of recreate_application_directory ''state'' = Some ''directory''"
  "tmodule restore_application_from_backup = ''unarchive''"
  "Option.bind (arg_of restore_application_from_backup ''dest'')
     (render disaster_recovery_vars) = Some ''/''"
  by code_simp+

lemma recovery_task_effects:
  "task_effect disaster_recovery_vars remove_current_application_directory ar f
     = file_absent ''/opt/nodejs-app'' f"
  "task_effect disaster_recovery_vars recreate_application_directory ar f
     = file_directory ''/opt/nodejs-app'' f"
  "task_effect disaster_recovery_vars restore_application_from_backup ar f
     = unarchive ''/'' ar f"
  by (simp_all add: task_effect_def recovery_task_args)

lemma recovery_task_named:
  "task_named disaster_recovery ''Remove current application directory''
     = Some remove_current_application_directory"
  "task_named disaster_recovery ''Restore application from backup''
     = Some restore_application_from_backup"
  "task_named disaster_recovery ''Copy backup file to remote server''
     = Some copy_backup_file_to_remote_server"
  by code_simp+

lemma unarchive_apply:
  "unarchive dest ar f p =
     (case map_of (rev (map (\<lambda>(m, n). (dest @ m, n)) ar)) p of
        None \<Rightarrow> f p | Some n \<Rightarrow> Some n)"
  unfolding unarchive_def
proof (induction ar arbitrary: f)
  case Nil
  then show ?case by simp
next
  case (Cons x ar)
  obtain m n where x: "x = (m, n)" by (cases x)
  have "fold (\<lambda>(m, n) g. g(dest @ m \<mapsto> n)) (x # ar) f p =
      fold (\<lambda>(m, n) g. g(dest @ m \<mapsto> n)) ar (f(dest @ m \<mapsto> n)) p"
    by (simp add: x)
  also have "\<dots> = (case map_of (rev (map (\<lambda>(m, n). (dest @ m, n)) ar)) p of
        None \<Rightarrow> (f(dest @ m \<mapsto> n)) p | Some n \<Rightarrow> Some n)"
    by (rule Cons.IH)
  also have "\<dots> = (case map_of (rev (map (\<lambda>(m, n). (dest @ m, n)) (x # ar))) p of
        None \<Rightarrow> f p | Some n \<Rightarrow> Some n)"
    by (simp add: x map_add_def split: option.splits)
  finally show ?case .
qed

subsection \<open>The safety snapshot\<close>

lemma recovery_length: "length (play_steps disaster_recovery) = 21"
  by code_simp

lemma recovery_snapshot_step:
  "play_steps disaster_recovery ! 6 = Do create_current_state_backup"
  by code_simp

lemma recovery_remove_step:
  "play_steps disaster_recovery ! 7 = Do remove_current_application_directory"
  by code_simp

lemma recovery_recreate_step:
  "play_steps disaster_recovery ! 8 = Do recreate_application_directory"
  by code_simp

lemma recovery_copy_step:
  "play_steps disaster_recovery ! 9 = Do copy_backup_file_to_remote_server"
  by code_simp

lemma recovery_restore_step:
  "play_steps disaster_recovery ! 10 = Do restore_application_from_backup"
  by code_simp

lemma recovery_params:
  "tname create_current_state_backup = ''Create current state backup before recovery''"
  "ignore_errors create_current_state_backup"
  "tname remove_current_application_directory = ''Remove current application directory''"
  "when_of (tkeys remove_current_application_directory) = []"
  "total_attempts remove_current_application_directory = 1"
  "module_failed remove_current_application_directory r = r_failed r"
  "tname recreate_application_directory = ''Recreate application directory''"
  "when_of (tkeys recreate_application_directory) = []"
  "total_attempts recreate_application_directory = 1"
  "module_failed recreate_application_directory r = r_failed r"
  "tname copy_backup_file_to_remote_server = ''Copy backup file to remote server''"
  "when_of (tkeys copy_backup_file_to_remote_server) = []"
  "total_attempts copy_backup_file_to_remote_server = 1"
  "module_failed copy_backup_file_to_remote_server r = r_failed r"
  "tname restore_application_from_backup = ''Restore application from backup''"
  "when_of (tkeys restore_application_from_backup) = []"
  by (simp_all add: create_current_state_backup_def remove_current_application_directory_def
      recreate_application_directory_def copy_backup_file_to_remote_server_def
      restore_application_from_backup_def ignore_errors_def total_attempts_def
      module_failed_def)

lemma recovery_before_snapshot:
  "''Create current state backup before recovery''
     \<notin> set (step_names (take 6 (play_steps disaster_recovery)))"
  by code_simp

lemma recovery_snapshot_only:
  "list_all (\<lambda>s. case step_task s of None \<Rightarrow> True
       | Some t \<Rightarrow> tname t = ''Create current state backup before recovery''
           \<longrightarrow> ignore_errors t) (play_steps disaster_recovery)"
  by code_simp

lemma run_task_no_fatal:
  assumes "ignore_errors t"
  shows "Fatal x n \<notin> set (fst (run_task w h t st))"
proof -
  obtain as f r where
    al: "attempt_loop w h t (henv st) (1 < total_attempts t) 1 (total_attempts t - 1) = (as, f, r)"
    by (cases "attempt_loop w h t (henv st) (1 < total_attempts t) 1 (total_attempts t - 1)") auto
  have "Fatal x n \<notin> set as"
    using attempt_loop_events [OF al, of "Fatal x n"] by auto
  with al assms show ?thesis
    by (auto simp: run_task_def Let_def split: option.splits bool.splits if_splits)
qed

lemma run_host_no_fatal:
  assumes "list_all (\<lambda>s. case step_task s of None \<Rightarrow> True
       | Some t \<Rightarrow> tname t = n \<longrightarrow> ignore_errors t) ss"
  shows "Fatal x n \<notin> set (fst (run_host w h ss st))"
  using assms
proof (induction ss arbitrary: st)
  case Nil
  then show ?case by simp
next
  case (Cons s ss)
  have "Fatal x n \<notin> set (fst (run_step w h s st))"
  proof (cases "step_task s")
    case None
    then show ?thesis by (cases s) auto
  next
    case (Some t)
    show ?thesis
    proof (cases "tname t = n")
      case True
      with Cons.prems Some have "ignore_errors t" by simp
      from run_task_no_fatal [OF this] Some show ?thesis
        by (cases s) auto
    next
      case False
      have "\<And>st'. Fatal x n \<notin> set (fst (run_task w h t st'))"
      proof
        fix st'
        assume "Fatal x n \<in> set (fst (run_task w h t st'))"
        with run_task_events [of w h t st' "fst (run_task w h t st')" "snd (run_task w h t st')"
            "Fatal x n"] False
        show False by simp
      qed
      with Some show ?thesis by (cases s) auto
    qed
  qed
  with Cons show ?case
    by (simp add: split_beta)
qed

text \<open>
  C10.  In disaster recovery the safety snapshot has \<^verbatim>\<open>ignore_errors\<close>: its failure is
  never fatal for a host.  On a host where the snapshot failed, the removal of the
  application directory is started next; and when the removal, the re-creation of the
  directory and the copy of the backup succeed, the restore from the supplied backup is
  started.  The task \<^verbatim>\<open>Remove current application directory\<close> of the play is the one
  that removes \<^verbatim>\<open>/opt/nodejs-app\<close> with all that is below it, and the task
  \<^verbatim>\<open>Restore application from backup\<close> is the one that extracts to \<^verbatim>\<open>/\<close> the archive
  at \<^verbatim>\<open>/tmp/recovery-backup.tar.gz\<close>, which is where \<^verbatim>\<open>Copy backup file to remote server\<close>
  has put the supplied backup (\<^verbatim>\<open>recovery_backup_path\<close>).
\<close>

theorem snapshot_failure_is_ignored:
  "Fatal h ''Create current state backup before recovery''
     \<notin> set (run_play w v disaster_recovery hs)
   \<and> (Ignored h ''Create current state backup before recovery''
        \<in> set (run_play w v disaster_recovery hs) \<longrightarrow>
      Exec h ''Remove current application directory'' 1
        \<in> set (run_play w v disaster_recovery hs)
      \<and> (\<not> r_failed (w h ''Remove current application directory'' 1)
           \<and> \<not> r_failed (w h ''Recreate application directory'' 1)
           \<and> \<not> r_failed (w h ''Copy backup file to remote server'' 1) \<longrightarrow>
         Exec h ''Restore application from backup'' 1
           \<in> set (run_play w v disaster_recovery hs)))
   \<and> effect_named disaster_recovery_vars disaster_recovery
         ''Remove current application directory'' ar f p
       = (if under ''/opt/nodejs-app'' p then None else f p)
   \<and> effect_named disaster_recovery_vars disaster_recovery
         ''Restore application from backup'' ar f p
       = (case map_of (rev (map (\<lambda>(m, n). (''/'' @ m, n)) ar)) p of
            None \<Rightarrow> f p | Some n \<Rightarrow> Some n)
   \<and> Option.bind (task_named disaster_recovery ''Copy backup file to remote server'')
         (\<lambda>t. arg_of t ''src'') = Some ''{{ recovery_backup_path }}''
   \<and> Option.bind (task_named disaster_recovery ''Copy backup file to remote server'')
         (\<lambda>t. arg_of t ''dest'') = Some ''/tmp/recovery-backup.tar.gz''
   \<and> Option.bind (task_named disaster_recovery ''Restore application from backup'')
         (\<lambda>t. arg_of t ''src'') = Some ''/tmp/recovery-backup.tar.gz''"
proof (intro conjI impI)
  let ?ss = "play_steps disaster_recovery"
  let ?st = "snd (init_state v h)"
  let ?tr = "run_play w v disaster_recovery hs"
  show "Fatal h ''Create current state backup before recovery'' \<notin> set ?tr"
  proof
    assume "Fatal h ''Create current state backup before recovery'' \<in> set ?tr"
    from run_play_events [OF this]
    have "Fatal h ''Create current state backup before recovery''
        \<in> set (fst (run_host w h ?ss ?st))" by simp
    with run_host_no_fatal [OF recovery_snapshot_only] show False by blast
  qed
  assume ig: "Ignored h ''Create current state backup before recovery'' \<in> set ?tr"
  from run_play_events [OF ig]
  have h: "h \<in> set hs"
    and e: "Ignored h ''Create current state backup before recovery''
        \<in> set (fst (run_host w h ?ss ?st))"
    by simp_all
  have a6: "alive (snd (run_host w h (take 6 ?ss) ?st))"
    by (rule alive_before [where t = create_current_state_backup
          and e = "Ignored h ''Create current state backup before recovery''"])
      (use e in \<open>simp_all add: recovery_length recovery_snapshot_step recovery_params
         recovery_before_snapshot\<close>)
  then have a7: "alive (snd (run_host w h (take 7 ?ss) ?st))"
  proof (rule passes)
    show "6 \<le> (7::nat)" by simp
    show "7 \<le> length ?ss" by (simp add: recovery_length)
    fix j :: nat
    assume "6 \<le> j" "j < 7"
    then have "j = 6" by simp
    then show "\<exists>t. ?ss ! j = Do t \<and>
        (ignore_errors t \<or>
         when_of (tkeys t) = [] \<and> total_attempts t = 1
           \<and> \<not> module_failed t (w h (tname t) 1))"
      by (simp add: recovery_snapshot_step recovery_params)
  qed
  then have "Exec h (tname remove_current_application_directory) 1
      \<in> set (fst (run_host w h ?ss ?st))"
    by (rule runs_next) (simp_all add: recovery_length recovery_remove_step recovery_params)
  with one_batch_events [OF recovery_one_batch h, of w v]
  show "Exec h ''Remove current application directory'' 1 \<in> set ?tr"
    by (auto simp: recovery_params)
  assume ok: "\<not> r_failed (w h ''Remove current application directory'' 1)
           \<and> \<not> r_failed (w h ''Recreate application directory'' 1)
           \<and> \<not> r_failed (w h ''Copy backup file to remote server'' 1)"
  from a7 have "alive (snd (run_host w h (take 10 ?ss) ?st))"
  proof (rule passes)
    show "7 \<le> (10::nat)" by simp
    show "10 \<le> length ?ss" by (simp add: recovery_length)
    fix j :: nat
    assume "7 \<le> j" "j < 10"
    then have "j = 7 \<or> j = 8 \<or> j = 9" by auto
    then show "\<exists>t. ?ss ! j = Do t \<and>
        (ignore_errors t \<or>
         when_of (tkeys t) = [] \<and> total_attempts t = 1
           \<and> \<not> module_failed t (w h (tname t) 1))"
      using ok
      by (auto simp: recovery_remove_step recovery_recreate_step recovery_copy_step
          recovery_params)
  qed
  then have "Exec h (tname restore_application_from_backup) 1
      \<in> set (fst (run_host w h ?ss ?st))"
    by (rule runs_next) (simp_all add: recovery_length recovery_restore_step recovery_params)
  with one_batch_events [OF recovery_one_batch h, of w v]
  show "Exec h ''Restore application from backup'' 1 \<in> set ?tr"
    by (auto simp: recovery_params)
next
  show "effect_named disaster_recovery_vars disaster_recovery
         ''Remove current application directory'' ar f p
       = (if under ''/opt/nodejs-app'' p then None else f p)"
    by (simp add: effect_named_def recovery_task_named recovery_task_effects file_absent_def)
  show "effect_named disaster_recovery_vars disaster_recovery
         ''Restore application from backup'' ar f p
       = (case map_of (rev (map (\<lambda>(m, n). (''/'' @ m, n)) ar)) p of
            None \<Rightarrow> f p | Some n \<Rightarrow> Some n)"
    unfolding effect_named_def recovery_task_named option.simps recovery_task_effects
    by (rule unarchive_apply)
  show "Option.bind (task_named disaster_recovery ''Copy backup file to remote server'')
         (\<lambda>t. arg_of t ''src'') = Some ''{{ recovery_backup_path }}''"
    by code_simp
  show "Option.bind (task_named disaster_recovery ''Copy backup file to remote server'')
         (\<lambda>t. arg_of t ''dest'') = Some ''/tmp/recovery-backup.tar.gz''"
    by code_simp
  show "Option.bind (task_named disaster_recovery ''Restore application from backup'')
         (\<lambda>t. arg_of t ''src'') = Some ''/tmp/recovery-backup.tar.gz''"
    by code_simp
qed

text \<open>A recovery whose safety snapshot fails, event by event.\<close>

lemma recovery_no_snapshot_trace:
  "recovery_no_snapshot =
     [Exec ''web1'' ''Gathering Facts'' 1, Succeeded ''web1'' ''Gathering Facts'',
      Skipped ''web1'' ''Check if recovery backup is specified'',
      Exec ''web1'' ''Verify backup file exists'' 1,
      Succeeded ''web1'' ''Verify backup file exists'',
      Skipped ''web1'' ''Fail if backup file doesn't exist'',
      Exec ''web1'' ''Stop all services'' 1, Succeeded ''web1'' ''Stop all services'',
      Exec ''web1'' ''Create current state backup before recovery'' 1,
      Ignored ''web1'' ''Create current state backup before recovery'',
      Exec ''web1'' ''Remove current application directory'' 1,
      Succeeded ''web1'' ''Remove current application directory'',
      Exec ''web1'' ''Recreate application directory'' 1,
      Succeeded ''web1'' ''Recreate application directory'',
      Exec ''web1'' ''Copy backup file to remote server'' 1,
      Succeeded ''web1'' ''Copy backup file to remote server'',
      Exec ''web1'' ''Restore application from backup'' 1,
      Succeeded ''web1'' ''Restore application from backup'',
      Exec ''web1'' ''Install/update npm dependencies'' 1,
      Succeeded ''web1'' ''Install/update npm dependencies'',
      Exec ''web1'' ''Start application service'' 1,
      Succeeded ''web1'' ''Start application service'', Exec ''web1'' ''Start nginx service'' 1,
      Succeeded ''web1'' ''Start nginx service'',
      Exec ''web1'' ''Wait for application to be ready'' 1,
      Succeeded ''web1'' ''Wait for application to be ready'',
      Exec ''web1'' ''Verify recovery success'' 1,
      Succeeded ''web1'' ''Verify recovery success'',
      Exec ''web1'' ''Clean up temporary backup file'' 1,
      Succeeded ''web1'' ''Clean up temporary backup file'',
      Exec ''web1'' ''Display recovery results'' 1,
      Succeeded ''web1'' ''Display recovery results'',
      Skipped ''web1'' ''Send recovery notification'', Finished ''web1'']"
  by code_simp

theorem snapshot_failure_is_ignored_witness:
  "r_failed (snapshot_fails ''web1'' ''Create current state backup before recovery'' 1)
   \<and> Ignored ''web1'' ''Create current state backup before recovery''
       \<in> set recovery_no_snapshot
   \<and> Exec ''web1'' ''Remove current application directory'' 1 \<in> set recovery_no_snapshot
   \<and> Exec ''web1'' ''Restore application from backup'' 1 \<in> set recovery_no_snapshot
   \<and> after_update ''/opt/nodejs-app/app.js'' = Some (File ''v2'')
   \<and> effect_named disaster_recovery_vars disaster_recovery
         ''Remove current application directory'' [] after_update ''/opt/nodejs-app/app.js''
       = None
   \<and> effect_named disaster_recovery_vars disaster_recovery
         ''Restore application from backup'' nightly_backup Map.empty ''/opt/nodejs-app/app.js''
       = Some (File ''v1'')"
proof -
  have f: "r_failed (snapshot_fails ''web1'' ''Create current state backup before recovery'' 1)"
    by (simp add: snapshot_fails_def)
  have i: "Ignored ''web1'' ''Create current state backup before recovery''
       \<in> set recovery_no_snapshot"
    by (simp add: recovery_no_snapshot_trace)
  have ok: "\<not> r_failed (snapshot_fails ''web1'' ''Remove current application directory'' 1)
      \<and> \<not> r_failed (snapshot_fails ''web1'' ''Recreate application directory'' 1)
      \<and> \<not> r_failed (snapshot_fails ''web1'' ''Copy backup file to remote server'' 1)"
    by (simp add: snapshot_fails_def fine_def)
  note th = snapshot_failure_is_ignored
    [where h = "''web1''" and w = snapshot_fails and v = with_backup_path
       and hs = "[''web1'']", folded recovery_no_snapshot_def]
  note t = th [THEN conjunct2, THEN conjunct1, THEN mp, OF i]
  from t have r: "Exec ''web1'' ''Remove current application directory'' 1
      \<in> set recovery_no_snapshot"
    by (rule conjunct1)
  from t [THEN conjunct2, THEN mp, OF ok]
  have s: "Exec ''web1'' ''Restore application from backup'' 1 \<in> set recovery_no_snapshot" .
  have a: "after_update ''/opt/nodejs-app/app.js'' = Some (File ''v2'')"
    by (simp add: after_update_def)
  have u: "under ''/opt/nodejs-app'' ''/opt/nodejs-app/app.js''"
    by code_simp
  from th [where ar = "[]" and f = after_update and p = "''/opt/nodejs-app/app.js''",
      THEN conjunct2, THEN conjunct2, THEN conjunct1] u
  have x: "effect_named disaster_recovery_vars disaster_recovery
         ''Remove current application directory'' [] after_update ''/opt/nodejs-app/app.js''
       = None"
    by simp
  from th [where ar = nightly_backup and f = Map.empty and p = "''/opt/nodejs-app/app.js''",
      THEN conjunct2, THEN conjunct2, THEN conjunct2, THEN conjunct1]
  have y: "effect_named disaster_recovery_vars disaster_recovery
         ''Restore application from backup'' nightly_backup Map.empty ''/opt/nodejs-app/app.js''
       = Some (File ''v1'')"
    by (simp add: nightly_backup_def)
  show ?thesis
    using f i r s a x y by (intro conjI)
qed

subsection \<open>The restore\<close>

lemma recovery_wipe_apply:
  "recovery_wipe f p =
     (if p = ''/opt/nodejs-app'' then Some Dir
      else if under ''/opt/nodejs-app'' p then None else f p)"
  unfolding recovery_wipe_def recovery_task_effects
  by (simp add: file_directory_def file_absent_def under_def)

lemma recovery_restore_apply:
  "recovery_restore ar f p =
     (case map_of (rev (map (\<lambda>(m, n). (''/'' @ m, n)) ar)) p of
        Some n \<Rightarrow> Some n
      | None \<Rightarrow> if p = ''/opt/nodejs-app'' then Some Dir
                else if under ''/opt/nodejs-app'' p then None else f p)"
  unfolding recovery_restore_def recovery_task_effects unarchive_apply recovery_wipe_apply
  by (simp split: option.splits)

lemma member_restored:
  assumes "distinct (map fst ar)" "(m, n) \<in> set ar"
  shows "map_of (rev (map (\<lambda>(m, n). (''/'' @ m, n)) ar)) (''/'' @ m) = Some n"
proof (rule map_of_is_SomeI)
  have "map fst (map (\<lambda>(m, n). (''/'' @ m, n)) ar) = map (\<lambda>m. ''/'' @ m) (map fst ar)"
    by (simp add: split_beta)
  moreover have "distinct (map (\<lambda>m. ''/'' @ m) (map fst ar))"
    using assms(1) by (simp add: distinct_map inj_on_def)
  ultimately show "distinct (map fst (rev (map (\<lambda>(m, n). (''/'' @ m, n)) ar)))"
    by (simp add: rev_map [symmetric] del: map_map)
  show "(''/'' @ m, n) \<in> set (rev (map (\<lambda>(m, n). (''/'' @ m, n)) ar))"
    using assms(2) by force
qed

text \<open>
  C6.  The restore of disaster recovery (remove the application directory, recreate
  it, extract the backup to \<^verbatim>\<open>/\<close>) gives the same files when it is done twice as
  when it is done once.  It is a full overwrite of the application directory: after it,
  a path holds what the backup has for it; the directory itself is there; every other
  path below the directory is empty, whatever was there before; paths outside the
  directory that the backup does not name are left as they were.  So every member of a
  backup (whose members have different names) is in place afterwards, and what lies
  below the directory does not depend on the files that were there before.
\<close>

theorem recovery_restore_overwrites:
  "recovery_restore ar (recovery_restore ar f) = recovery_restore ar f
   \<and> (\<forall>p. recovery_restore ar f p =
        (case map_of (rev (map (\<lambda>(m, n). (''/'' @ m, n)) ar)) p of
           Some n \<Rightarrow> Some n
         | None \<Rightarrow> if p = ''/opt/nodejs-app'' then Some Dir
                   else if under ''/opt/nodejs-app'' p then None else f p))
   \<and> (\<forall>m n. distinct (map fst ar) \<and> (m, n) \<in> set ar \<longrightarrow>
        recovery_restore ar f (''/'' @ m) = Some n)
   \<and> (\<forall>p f'. under ''/opt/nodejs-app'' p \<longrightarrow>
        recovery_restore ar f p = recovery_restore ar f' p)"
proof (intro conjI allI impI)
  show "recovery_restore ar (recovery_restore ar f) = recovery_restore ar f"
  proof (rule ext)
    fix p
    show "recovery_restore ar (recovery_restore ar f) p = recovery_restore ar f p"
      unfolding recovery_restore_apply [of ar "recovery_restore ar f" p]
      by (simp add: recovery_restore_apply split: option.splits)
  qed
  show "recovery_restore ar f p =
        (case map_of (rev (map (\<lambda>(m, n). (''/'' @ m, n)) ar)) p of
           Some n \<Rightarrow> Some n
         | None \<Rightarrow> if p = ''/opt/nodejs-app'' then Some Dir
                   else if under ''/opt/nodejs-app'' p then None else f p)" for p
    by (rule recovery_restore_apply)
  show "recovery_restore ar f (''/'' @ m) = Some n"
    if "distinct (map fst ar) \<and> (m, n) \<in> set ar" for m n
  proof -
    have "map_of (rev (map (\<lambda>(m, n). (''/'' @ m, n)) ar)) (''/'' @ m) = Some n"
      by (rule member_restored [OF conjunct1 [OF that] conjunct2 [OF that]])
    then show ?thesis
      unfolding recovery_restore_apply by simp
  qed
  show "recovery_restore ar f p = recovery_restore ar f' p"
    if "under ''/opt/nodejs-app'' p" for p f'
    using that by (simp add: recovery_restore_apply split: option.splits)
qed

theorem recovery_restore_overwrites_witness:
  "distinct (map fst nightly_backup)
   \<and> (''opt/nodejs-app/app.js'', File ''v1'') \<in> set nightly_backup
   \<and> after_update ''/opt/nodejs-app/app.js'' = Some (File ''v2'')
   \<and> recovery_restore nightly_backup after_update ''/opt/nodejs-app/app.js''
       = Some (File ''v1'')
   \<and> under ''/opt/nodejs-app'' ''/opt/nodejs-app/src/new.js''
   \<and> after_update ''/opt/nodejs-app/src/new.js'' = Some (File ''v2'')
   \<and> recovery_restore nightly_backup after_update ''/opt/nodejs-app/src/new.js'' = None
   \<and> recovery_restore nightly_backup after_update ''/etc/hostname'' = Some (File ''web1'')"
proof -
  note th = recovery_restore_overwrites [of nightly_backup after_update]
  have d: "distinct (map fst nightly_backup)"
    by code_simp
  have m: "(''opt/nodejs-app/app.js'', File ''v1'') \<in> set nightly_backup"
    by (simp add: nightly_backup_def)
  have a: "after_update ''/opt/nodejs-app/app.js'' = Some (File ''v2'')"
    by (simp add: after_update_def)
  from th [THEN conjunct2, THEN conjunct2, THEN conjunct1] d m
  have r: "recovery_restore nightly_backup after_update ''/opt/nodejs-app/app.js''
       = Some (File ''v1'')"
    by force
  have u: "under ''/opt/nodejs-app'' ''/opt/nodejs-app/src/new.js''"
    by code_simp
  have b: "after_update ''/opt/nodejs-app/src/new.js'' = Some (File ''v2'')"
    by (simp add: after_update_def)
  have e: "recovery_restore nightly_backup Map.empty ''/opt/nodejs-app/src/new.js'' = None"
    by (simp add: recovery_restore_apply nightly_backup_def u)
  from th [THEN conjunct2, THEN conjunct2, THEN conjunct2, THEN spec, THEN spec, THEN mp,
      OF u, of Map.empty] e
  have g: "recovery_restore nightly_backup after_update ''/opt/nodejs-app/src/new.js'' = None"
    by simp
  have n: "\<not> under ''/opt/nodejs-app'' ''/etc/hostname''"
    by code_simp
  from th [THEN conjunct2, THEN conjunct1, THEN spec, of "''/etc/hostname''"] n
  have o: "recovery_restore nightly_backup after_update ''/etc/hostname'' = Some (File ''web1'')"
    by (simp add: nightly_backup_def after_update_def)
  show ?thesis
    using d m a r u b g o by (intro conjI)
qed

text \<open>
  Against C6 as stated: the directory is not replaced in one step by a directory that
  was extracted elsewhere.  It is removed first, and the archive is extracted into the
  empty directory afterwards.  When the supplied backup cannot be read, the removal has
  been done, the extraction fails, the play ends for the host, and the application
  directory is left empty: \<^verbatim>\<open>app.js\<close>, which was there before, is gone.
\<close>

theorem recovery_in_place_counterexample:
  "recovery_empty ! 11 = Succeeded ''web1'' ''Remove current application directory''
   \<and> recovery_empty ! 13 = Succeeded ''web1'' ''Recreate application directory''
   \<and> recovery_empty ! 16 = Exec ''web1'' ''Restore application from backup'' 1
   \<and> last recovery_empty = Fatal ''web1'' ''Restore application from backup''
   \<and> after_update ''/opt/nodejs-app/app.js'' = Some (File ''v2'')
   \<and> recovery_wipe after_update ''/opt/nodejs-app/app.js'' = None
   \<and> recovery_wipe after_update ''/opt/nodejs-app'' = Some Dir"
proof -
  have u: "under ''/opt/nodejs-app'' ''/opt/nodejs-app/app.js''"
    by code_simp
  show ?thesis
    by (simp add: recovery_empty_trace recovery_wipe_apply u after_update_def)
qed

end
